theory Spec2Isabelle
  imports Complex_Main
begin

section \<open>Python values shared by the modules\<close>

text \<open>
  Exceptions of the Python code are values. The classes that a handler of the repository
  names, and those that \<open>np.dot\<close> and \<open>np.array\<close> raise, are separate constructors;
  \<open>OtherException\<close> stands for every other subclass of \<open>Exception\<close>.
\<close>

datatype py_error =
    FileNotFoundError
  | EOFError
  | UnpicklingError
  | ValueError
  | TypeError
  | OtherException

text \<open>
  Times (\<open>time.time()\<close>) and coordinates are Python floats; they are modelled as reals.
  The elements of an embedding are float32 numbers, modelled as reals as well; what
  \<open>np.dot\<close> computes from two embeddings, with the rounding of numpy, is an input of the
  model.
\<close>

text \<open>Truth value of a \<open>str\<close> or \<open>None\<close> variable: \<open>None\<close> and the empty string are falsy.\<close>

definition truthy :: "string option \<Rightarrow> bool" where
  "truthy v = (case v of None \<Rightarrow> False | Some s \<Rightarrow> s \<noteq> [])"

section \<open>utils/face\_utils.py: faces and the center-most selector\<close>

text \<open>
  An InsightFace \<open>Face\<close>: its \<open>bbox\<close> (x1, y1, x2, y2) as the detector gives it, in floats,
  and its \<open>normed_embedding\<close>, \<open>None\<close> when no embedding could be extracted.
\<close>

type_synonym bbox = "real \<times> real \<times> real \<times> real"
type_synonym ibbox = "int \<times> int \<times> int \<times> int"

record face =
  bbox :: bbox
  normed_embedding :: "real list option"

text \<open>\<open>ndarray.astype(int)\<close> on floats truncates towards zero.\<close>

definition astype_int :: "real \<Rightarrow> int" where
  "astype_int r = (if 0 \<le> r then \<lfloor>r\<rfloor> else \<lceil>r\<rceil>)"

definition bbox_astype_int :: "bbox \<Rightarrow> ibbox" where
  "bbox_astype_int b =
     (case b of (x1, y1, x2, y2) \<Rightarrow> (astype_int x1, astype_int y1, astype_int x2, astype_int y2))"

text \<open>
  The body of the loop of \<open>get_center_most_face\<close> up to its comparison: the squared
  distance of the center of the box, cast to integers, to the center of the frame.
  \<open>/\<close> is Python's true division.
\<close>

definition dist_sq :: "nat \<Rightarrow> nat \<Rightarrow> face \<Rightarrow> real" where
  "dist_sq frame_width frame_height face_obj =
     (case bbox_astype_int (bbox face_obj) of (x1, y1, x2, y2) \<Rightarrow>
        (let frame_center_x = real frame_width / 2;
             frame_center_y = real frame_height / 2;
             face_center_x = real_of_int (x1 + x2) / 2;
             face_center_y = real_of_int (y1 + y2) / 2
         in (face_center_x - frame_center_x)\<^sup>2 + (face_center_y - frame_center_y)\<^sup>2))"

text \<open>
  The \<open>for\<close> loop. The accumulator is (\<open>closest_face_obj\<close>, \<open>min_dist_sq\<close>);
  \<open>min_dist_sq = None\<close> is the initial \<open>float('inf')\<close>, below which every distance lies.
\<close>

fun center_loop ::
  "nat \<Rightarrow> nat \<Rightarrow> face list \<Rightarrow> face option \<times> real option \<Rightarrow> face option \<times> real option" where
  "center_loop w h [] acc = acc"
| "center_loop w h (face_obj # rest) (closest_face_obj, min_dist_sq) =
     (let d = dist_sq w h face_obj in
      if (case min_dist_sq of None \<Rightarrow> True | Some m \<Rightarrow> d < m)
      then center_loop w h rest (Some face_obj, Some d)
      else center_loop w h rest (closest_face_obj, min_dist_sq))"

definition get_center_most_face :: "face list \<Rightarrow> nat \<Rightarrow> nat \<Rightarrow> face option" where
  "get_center_most_face faces frame_width frame_height =
     (if faces = [] then None
      else fst (center_loop frame_width frame_height faces (None, None)))"

section \<open>utils/face\_utils.py and main.py: the matcher\<close>

text \<open>An entry of the database: the dict with the keys \<open>name\<close> and \<open>embedding\<close>.\<close>

record known_face =
  name :: string
  embedding :: "real list"

text \<open>
  A float32 number as \<open>np.dot\<close> returns it: a finite number, an infinity, or not a number.
\<close>

datatype float32 = Finite real | PosInf | NegInf | NaN

text \<open>The comparison \<open>>\<close> of two floats: false whenever an operand is not a number.\<close>

fun float_gt :: "float32 \<Rightarrow> float32 \<Rightarrow> bool" where
  "float_gt NaN b = False"
| "float_gt a NaN = False"
| "float_gt (Finite a) (Finite b) = (a > b)"
| "float_gt PosInf b = (b \<noteq> PosInf)"
| "float_gt a PosInf = False"
| "float_gt a NegInf = (a \<noteq> NegInf)"
| "float_gt NegInf b = False"

text \<open>
  \<open>np.dot\<close> on two float32 vectors of the same length. The sum is rounded to float32, in
  an order that numpy chooses, so the function is a parameter of the model.
\<close>

type_synonym np_dot = "real list \<Rightarrow> real list \<Rightarrow> float32"

text \<open>\<open>np.dot\<close> on two vectors raises \<open>ValueError\<close> when their lengths differ.\<close>

definition compare_embeddings :: "np_dot \<Rightarrow> real list \<Rightarrow> real list \<Rightarrow> py_error + float32" where
  "compare_embeddings np_dot emb1 emb2 =
     (if length emb1 = length emb2 then Inr (np_dot emb1 emb2) else Inl ValueError)"

definition SIMILARITY_THRESHOLD :: real where
  "SIMILARITY_THRESHOLD = 1 / 2"

text \<open>
  The scan of \<open>process_frame\<close> over \<open>known_faces_db\<close>; the accumulator is
  (\<open>best_match_name\<close>, \<open>max_similarity\<close>).
\<close>

fun match_loop ::
  "np_dot \<Rightarrow> real list \<Rightarrow> known_face list \<Rightarrow> string option \<times> float32 \<Rightarrow>
     py_error + (string option \<times> float32)" where
  "match_loop np_dot q [] acc = Inr acc"
| "match_loop np_dot q (kf # rest) (best_match_name, max_similarity) =
     (case compare_embeddings np_dot q (embedding kf) of
        Inl e \<Rightarrow> Inl e
      | Inr similarity \<Rightarrow>
          if float_gt similarity (Finite SIMILARITY_THRESHOLD) \<and> float_gt similarity max_similarity
          then match_loop np_dot q rest (Some (name kf), similarity)
          else match_loop np_dot q rest (best_match_name, max_similarity))"

text \<open>
  The last part of \<open>process_frame\<close>, from the test of the empty database to the returned
  name.
\<close>

definition best_match :: "np_dot \<Rightarrow> real list \<Rightarrow> known_face list \<Rightarrow> py_error + string" where
  "best_match np_dot current_embedding known_faces_db =
     (if known_faces_db = [] then Inr ''Unknown''
      else case match_loop np_dot current_embedding known_faces_db (None, Finite (- 1)) of
             Inl e \<Rightarrow> Inl e
           | Inr (best_match_name, max_similarity) \<Rightarrow>
               if truthy best_match_name then Inr (the best_match_name) else Inr ''Unknown'')"

text \<open>
  \<open>process_frame\<close>. The detector is outside the repository: \<open>detected_faces\<close> is what
  \<open>get_faces_from_frame\<close> returned for the frame.
\<close>

definition process_frame ::
  "np_dot \<Rightarrow> known_face list \<Rightarrow> face list \<Rightarrow> nat \<Rightarrow> nat \<Rightarrow>
     py_error + (string option \<times> ibbox option)" where
  "process_frame np_dot known_faces_db detected_faces frame_width frame_height =
     (if detected_faces = [] then Inr (None, None)
      else case get_center_most_face detected_faces frame_width frame_height of
             None \<Rightarrow> Inr (None, None)
           | Some target_face_obj \<Rightarrow>
               (let face_bbox = bbox_astype_int (bbox target_face_obj) in
                case normed_embedding target_face_obj of
                  None \<Rightarrow> Inr (Some ''Unknown'', Some face_bbox)
                | Some current_embedding \<Rightarrow>
                    (case best_match np_dot current_embedding known_faces_db of
                       Inl e \<Rightarrow> Inl e
                     | Inr nm \<Rightarrow> Inr (Some nm, Some face_bbox))))"

section \<open>utils/zoom\_utils.py: the zoomed region\<close>

text \<open>
  A frame or image is an array of shape (rows, cols) or (rows, cols, channels);
  \<open>channels = None\<close> is the two-dimensional case. \<open>pixel r c k\<close> is the value at row \<open>r\<close>,
  column \<open>c\<close>, channel \<open>k\<close>.
\<close>

record image =
  rows :: nat
  cols :: nat
  channels :: "nat option"
  pixel :: "nat \<Rightarrow> nat \<Rightarrow> nat \<Rightarrow> nat"

definition np_zeros :: "nat \<Rightarrow> nat \<Rightarrow> nat \<Rightarrow> image" where
  "np_zeros h w c = \<lparr>rows = h, cols = w, channels = Some c, pixel = (\<lambda>r c k. 0)\<rparr>"

text \<open>\<open>ndarray.size\<close>: the number of elements.\<close>

definition image_size :: "image \<Rightarrow> nat" where
  "image_size img = rows img * cols img * (case channels img of None \<Rightarrow> 1 | Some c \<Rightarrow> c)"

text \<open>
  A bound of a Python slice on an axis of length \<open>n\<close>: a negative bound counts from the
  end, and the result is clamped to \<open>0 .. n\<close>.
\<close>

definition slice_index :: "nat \<Rightarrow> int \<Rightarrow> nat" where
  "slice_index n i = (if i < 0 then nat (max 0 (i + int n)) else min (nat i) n)"

text \<open>\<open>frame[y1:y2, x1:x2]\<close>; an axis whose stop is not above its start is empty.\<close>

definition crop :: "image \<Rightarrow> int \<Rightarrow> int \<Rightarrow> int \<Rightarrow> int \<Rightarrow> image" where
  "crop img y1 y2 x1 x2 =
     (let r0 = slice_index (rows img) y1; r1 = slice_index (rows img) y2;
          c0 = slice_index (cols img) x1; c1 = slice_index (cols img) x2
      in \<lparr>rows = r1 - r0, cols = c1 - c0, channels = channels img,
          pixel = (\<lambda>r c k. pixel img (r0 + r) (c0 + c) k)\<rparr>)"

text \<open>
  \<open>cv2.resize\<close> belongs to OpenCV, so it is a parameter of the model: given an image and
  the size (width, height) it returns the resized image, or \<open>None\<close> when it raises
  \<open>cv2.error\<close>.
\<close>

type_synonym resize = "image \<Rightarrow> nat \<times> nat \<Rightarrow> image option"

text \<open>
  \<open>get_zoomed_region\<close> with the default \<open>padding_factor = 0.3\<close>. For a positive integer
  \<open>n\<close>, \<open>int(n * 0.3)\<close> is \<open>3 * n div 10\<close>. First the part that computes
  \<open>cropped_region\<close> for a box of positive width and height.
\<close>

definition padded_crop :: "image \<Rightarrow> ibbox \<Rightarrow> image" where
  "padded_crop fr box =
     (case box of (x1, y1, x2, y2) \<Rightarrow>
        (let fh = int (rows fr); fw = int (cols fr);
             bb_w = x2 - x1; bb_h = y2 - y1;
             pad_w = 3 * bb_w div 10; pad_h = 3 * bb_h div 10;
             crop_x1 = max 0 (x1 - pad_w); crop_y1 = max 0 (y1 - pad_h);
             crop_x2 = min fw (x2 + pad_w); crop_y2 = min fh (y2 + pad_h)
         in crop fr crop_y1 crop_y2 crop_x1 crop_x2))"

text \<open>The fallback image; \<open>target_display_size\<close> is (width, height).\<close>

definition black_image :: "image \<Rightarrow> nat \<times> nat \<Rightarrow> image" where
  "black_image fr target_display_size =
     np_zeros (snd target_display_size) (fst target_display_size)
       (case channels fr of Some c \<Rightarrow> c | None \<Rightarrow> 1)"

definition get_zoomed_region ::
  "resize \<Rightarrow> image option \<Rightarrow> ibbox option \<Rightarrow> nat \<times> nat \<Rightarrow> image option" where
  "get_zoomed_region cv2_resize frame_arg box target_display_size =
     (case frame_arg of
        None \<Rightarrow> None
      | Some fr \<Rightarrow>
         (case box of
            None \<Rightarrow> None
          | Some (x1, y1, x2, y2) \<Rightarrow>
             (let bb_w = x2 - x1; bb_h = y2 - y1
              in if bb_w \<le> 0 \<or> bb_h \<le> 0 then None
                 else
                  (let cropped_region = padded_crop fr (x1, y1, x2, y2)
                   in if image_size cropped_region = 0
                      then Some (black_image fr target_display_size)
                      else (case cv2_resize cropped_region target_display_size of
                              None \<Rightarrow> Some (black_image fr target_display_size)
                            | Some zoomed_image \<Rightarrow> Some zoomed_image)))))"

section \<open>main.py: the recognition loop\<close>

definition ZOOM_DURATION_SECONDS :: real where
  "ZOOM_DURATION_SECONDS = 17 / 10"

definition GREETING_COOLDOWN_SECONDS :: real where
  "GREETING_COOLDOWN_SECONDS = 5"

definition DETECTION_INTERVAL_SECONDS :: real where
  "DETECTION_INTERVAL_SECONDS = 1 / 10"

text \<open>
  The variables of \<open>main_loop\<close> and the globals it changes. \<open>tts_speak_calls\<close> is the effect
  of \<open>tts.speak\<close>: the texts handed to it so far, the latest last.
\<close>

record loop_state =
  zoom_active :: bool
  zoom_return_time :: real
  name_to_greet_after_zoom :: "string option"
  last_detection_run_time :: real
  current_processing_bbox_for_zoom :: "ibbox option"
  last_greeted_time :: "string \<rightharpoonup> real"
  USE_LOW_LIGHT_ENHANCEMENT :: bool
  tts_speak_calls :: "string list"

definition initial_state :: loop_state where
  "initial_state =
     \<lparr>zoom_active = False, zoom_return_time = 0, name_to_greet_after_zoom = None,
      last_detection_run_time = 0, current_processing_bbox_for_zoom = None,
      last_greeted_time = Map.empty, USE_LOW_LIGHT_ENHANCEMENT = True,
      tts_speak_calls = []\<rparr>"

text \<open>
  What one iteration reads from outside: the frame of \<open>cap.read()\<close> (\<open>None\<close> when \<open>ret\<close> is
  false or the frame is \<open>None\<close>), \<open>time.time()\<close>, the faces the detector finds on the
  frame with (\<open>True\<close>) and without (\<open>False\<close>) contrast enhancement, and the key of
  \<open>cv2.waitKey(1) & 0xFF\<close>.
\<close>

record tick =
  t_frame :: "image option"
  t_time :: real
  t_detect :: "bool \<Rightarrow> face list"
  t_key :: nat

definition greeting_text :: "string \<Rightarrow> string" where
  "greeting_text nm = ''Your friend '' @ nm @ '' is in front of you.''"

text \<open>
  The block \<open>Zoom Logic\<close> of the loop body. It works on the state and on \<open>display_frame\<close>.
\<close>

definition zoom_logic ::
  "resize \<Rightarrow> image \<Rightarrow> real \<Rightarrow> loop_state \<times> image \<Rightarrow> loop_state \<times> image" where
  "zoom_logic cv2_resize fr now sd =
     (case sd of (s, display_frame) \<Rightarrow>
      if zoom_active s then
        if now \<ge> zoom_return_time s then
          (let s1 = s\<lparr>zoom_active := False, current_processing_bbox_for_zoom := None\<rparr>;
               s2 = (if truthy (name_to_greet_after_zoom s1) \<and>
                        name_to_greet_after_zoom s1 \<noteq> Some ''Unknown''
                     then s1\<lparr>tts_speak_calls := tts_speak_calls s1 @
                                 [greeting_text (the (name_to_greet_after_zoom s1))],
                             last_greeted_time := (last_greeted_time s1)
                                 (the (name_to_greet_after_zoom s1) \<mapsto> now)\<rparr>
                     else s1)
           in (s2\<lparr>name_to_greet_after_zoom := None\<rparr>, display_frame))
        else
          (case current_processing_bbox_for_zoom s of
             Some b \<Rightarrow>
               (case get_zoomed_region cv2_resize (Some fr) (Some b) (cols fr, rows fr) of
                  Some zoomed_display \<Rightarrow> (s, zoomed_display)
                | None \<Rightarrow>
                    (s\<lparr>zoom_active := False, current_processing_bbox_for_zoom := None,
                       name_to_greet_after_zoom := None\<rparr>, display_frame))
           | None \<Rightarrow>
               (s\<lparr>zoom_active := False, name_to_greet_after_zoom := None\<rparr>, display_frame))
      else (s, display_frame))"

text \<open>
  The block \<open>Detection and Recognition Logic\<close>. \<open>Inl\<close> is an exception of \<open>process_frame\<close>,
  which leaves the loop through its \<open>except\<close> clause.
\<close>

definition detection_logic ::
  "resize \<Rightarrow> np_dot \<Rightarrow> known_face list \<Rightarrow> image \<Rightarrow> real \<Rightarrow> face list \<Rightarrow> loop_state \<times> image \<Rightarrow>
     py_error + (loop_state \<times> image)" where
  "detection_logic cv2_resize np_dot known_faces_db fr now faces sd =
     (case sd of (s, display_frame) \<Rightarrow>
      if \<not> zoom_active s \<and> now - last_detection_run_time s > DETECTION_INTERVAL_SECONDS then
        (let s1 = s\<lparr>last_detection_run_time := now\<rparr> in
         case process_frame np_dot known_faces_db faces (cols fr) (rows fr) of
           Inl e \<Rightarrow> Inl e
         | Inr (recognized_name, face_bbox) \<Rightarrow>
            (case face_bbox of
               None \<Rightarrow> Inr (s1, display_frame)
             | Some b \<Rightarrow>
                (let s2 = s1\<lparr>current_processing_bbox_for_zoom := Some b\<rparr> in
                 if truthy recognized_name then
                   (let nm = the recognized_name;
                        pending =
                          (if nm \<noteq> ''Unknown'' then
                             (if nm \<notin> dom (last_greeted_time s2) \<or>
                                 now - (case last_greeted_time s2 nm of Some t \<Rightarrow> t | None \<Rightarrow> 0)
                                   > GREETING_COOLDOWN_SECONDS
                              then Some nm else None)
                           else None);
                        s3 = s2\<lparr>zoom_active := True,
                                zoom_return_time := now + ZOOM_DURATION_SECONDS,
                                name_to_greet_after_zoom := pending\<rparr>
                    in case get_zoomed_region cv2_resize (Some fr) (Some b) (cols fr, rows fr) of
                         Some zoomed_display_on_detect \<Rightarrow> Inr (s3, zoomed_display_on_detect)
                       | None \<Rightarrow> Inr (s3, display_frame))
                 else Inr (s2, display_frame))))
      else Inr (s, display_frame))"

text \<open>How an iteration ends: the loop goes on, breaks, or an exception leaves it.\<close>

datatype control = Continue | Break | Raise py_error

text \<open>
  One iteration of \<open>while True\<close>: the new state, how the iteration ends and the frame
  given to \<open>cv2.imshow\<close>, if one was shown.
\<close>

definition loop_body ::
  "resize \<Rightarrow> np_dot \<Rightarrow> known_face list \<Rightarrow> loop_state \<Rightarrow> tick \<Rightarrow> control \<times> loop_state \<times> image option" where
  "loop_body cv2_resize np_dot known_faces_db s t =
     (case t_frame t of
        None \<Rightarrow> (Break, s, None)
      | Some fr \<Rightarrow>
         (let now = t_time t;
              faces = t_detect t (USE_LOW_LIGHT_ENHANCEMENT s);
              zoomed = zoom_logic cv2_resize fr now (s, fr)
          in case detection_logic cv2_resize np_dot known_faces_db fr now faces zoomed of
               Inl e \<Rightarrow> (Raise e, fst zoomed\<lparr>last_detection_run_time := now\<rparr>, None)
             | Inr (s', display_frame) \<Rightarrow>
                 if t_key t = 113 then (Break, s', Some display_frame)
                 else if t_key t = 108
                 then (Continue,
                       s'\<lparr>USE_LOW_LIGHT_ENHANCEMENT := \<not> USE_LOW_LIGHT_ENHANCEMENT s'\<rparr>,
                       Some display_frame)
                 else (Continue, s', Some display_frame)))"

text \<open>
  The loop over the iterations that the given ticks allow; it stops at the first
  iteration that does not end with \<open>Continue\<close>.
\<close>

fun main_loop :: "resize \<Rightarrow> np_dot \<Rightarrow> known_face list \<Rightarrow> loop_state \<Rightarrow> tick list \<Rightarrow> loop_state" where
  "main_loop cv2_resize np_dot known_faces_db s [] = s"
| "main_loop cv2_resize np_dot known_faces_db s (t # ts) =
     (case loop_body cv2_resize np_dot known_faces_db s t of
        (Continue, s', shown) \<Rightarrow> main_loop cv2_resize np_dot known_faces_db s' ts
      | (c, s', shown) \<Rightarrow> s')"

text \<open>
  The names the zoom block greets when a session ends, by the test
  \<open>name_to_greet_after_zoom and name_to_greet_after_zoom != "Unknown"\<close>: none or one.
\<close>

definition greeted_at_end :: "loop_state \<Rightarrow> string list" where
  "greeted_at_end s =
     (case name_to_greet_after_zoom s of
        None \<Rightarrow> []
      | Some nm \<Rightarrow> if nm \<noteq> [] \<and> nm \<noteq> ''Unknown'' then [nm] else [])"

section \<open>utils/tts.py: the speech gate\<close>

definition TTS_MIN_INTERVAL :: real where
  "TTS_MIN_INTERVAL = 1 / 2"

text \<open>
  The global \<open>last_tts_call_time\<close>, and as the effect of \<open>subprocess.run(['say', text])\<close>
  the texts for which it was called so far.
\<close>

record tts_state =
  last_tts_call_time :: real
  say_calls :: "string list"

definition tts_initial :: tts_state where
  "tts_initial = \<lparr>last_tts_call_time = 0, say_calls = []\<rparr>"

text \<open>
  What the blocking call of \<open>say\<close> does: it returns when the speech is over, and then
  \<open>time.time()\<close> is read (\<open>SayReturned\<close> carries that time), or it raises.
\<close>

datatype say_result = SayReturned real | SayRaised py_error

text \<open>
  \<open>_speak_task\<close>, the body under \<open>tts_lock\<close>. \<open>current_time\<close> is the \<open>time.time()\<close> read
  once the lock is held. Each of the three handlers prints and leaves
  \<open>last_tts_call_time\<close> as it was.
\<close>

definition speak_task :: "tts_state \<Rightarrow> string \<Rightarrow> real \<Rightarrow> say_result \<Rightarrow> tts_state" where
  "speak_task s text current_time r =
     (if current_time - last_tts_call_time s < TTS_MIN_INTERVAL then s
      else (case r of
              SayReturned t \<Rightarrow> s\<lparr>say_calls := say_calls s @ [text], last_tts_call_time := t\<rparr>
            | SayRaised e \<Rightarrow> s\<lparr>say_calls := say_calls s @ [text]\<rparr>))"

text \<open>
  The lock lets one task run at a time, so the requests of a run take effect one after
  the other, in the order in which their tasks get the lock.
\<close>

fun speak_all :: "tts_state \<Rightarrow> (string \<times> real \<times> say_result) list \<Rightarrow> tts_state" where
  "speak_all s [] = s"
| "speak_all s ((text, current_time, r) # rest) = speak_all (speak_task s text current_time r) rest"

section \<open>utils/face\_utils.py: the persisted store\<close>

text \<open>The Python values a pickle file of the store can hold; dicts have string keys.\<close>

datatype pyval =
    PyStr string
  | PyInt int
  | PyFloat real
  | PyList "pyval list"
  | PyDict "(string \<times> pyval) list"
  | PyArray "real list"

text \<open>
  The file at \<open>db_path\<close>: missing; present but \<open>open\<close> raises another \<open>OSError\<close>; content on
  which \<open>pickle.load\<close> raises the given exception; an empty or cut-off pickle, on which
  \<open>pickle.load\<close> raises \<open>EOFError\<close>; or the pickle of a value.
\<close>

datatype disk_file = Missing | Unreadable | Corrupt py_error | Truncated | Pickled pyval

definition read_pickle :: "disk_file \<Rightarrow> py_error + pyval" where
  "read_pickle f =
     (case f of
        Missing \<Rightarrow> Inl FileNotFoundError
      | Unreadable \<Rightarrow> Inl OtherException
      | Corrupt e \<Rightarrow> Inl e
      | Truncated \<Rightarrow> Inl EOFError
      | Pickled v \<Rightarrow> Inr v)"

text \<open>
  \<open>np.array(value, dtype=np.float32)\<close> belongs to NumPy, so it is a parameter of the model:
  the vector it returns or the exception it raises.
\<close>

type_synonym np_array = "pyval \<Rightarrow> py_error + real list"

text \<open>
  The lines \<open>load_known_faces\<close> prints: a warning for each item it skips (with the item),
  the count of loaded faces, the warning that the file holds no list, and the message of
  each of the two handlers (with the exception).
\<close>

datatype load_message =
    SkippingNonStringName pyval
  | SkippingMalformed pyval
  | LoadedKnownFaces nat
  | NotAList
  | CouldNotLoad py_error
  | UnexpectedError py_error

text \<open>
  The \<open>for\<close> loop of \<open>load_known_faces\<close>; the accumulator is \<open>valid_data\<close> with the lines
  printed so far. An entry it keeps is represented by its two fields. The embedding is
  converted before the name is looked at, and an exception of the conversion leaves the
  loop.
\<close>

fun load_items ::
  "np_array \<Rightarrow> pyval list \<Rightarrow> known_face list \<times> load_message list \<Rightarrow>
     (py_error + known_face list) \<times> load_message list" where
  "load_items np [] (valid_data, out) = (Inr valid_data, out)"
| "load_items np (item # rest) (valid_data, out) =
     (case item of
        PyDict d \<Rightarrow>
          (case (map_of d ''name'', map_of d ''embedding'') of
             (Some nm, Some emb) \<Rightarrow>
               (case np emb of
                  Inl e \<Rightarrow> (Inl e, out)
                | Inr arr \<Rightarrow>
                    (case nm of
                       PyStr s \<Rightarrow>
                         load_items np rest (valid_data @ [\<lparr>name = s, embedding = arr\<rparr>], out)
                     | _ \<Rightarrow> load_items np rest (valid_data, out @ [SkippingNonStringName item])))
           | _ \<Rightarrow> load_items np rest (valid_data, out @ [SkippingMalformed item]))
      | _ \<Rightarrow> load_items np rest (valid_data, out @ [SkippingMalformed item]))"

text \<open>The body of the \<open>try\<close>.\<close>

definition load_attempt ::
  "np_array \<Rightarrow> disk_file \<Rightarrow> (py_error + known_face list) \<times> load_message list" where
  "load_attempt np f =
     (case read_pickle f of
        Inl e \<Rightarrow> (Inl e, [])
      | Inr data \<Rightarrow>
          (case data of
             PyList items \<Rightarrow>
               (case load_items np items ([], []) of
                  (Inr valid_data, out) \<Rightarrow>
                    (Inr valid_data, out @ [LoadedKnownFaces (length valid_data)])
                | (Inl e, out) \<Rightarrow> (Inl e, out))
           | _ \<Rightarrow> (Inr [], [NotAList])))"

text \<open>
  \<open>load_known_faces\<close>: the list returned and the lines printed. The first handler takes
  three exception classes, the second every other \<open>Exception\<close>; both return the empty
  list.
\<close>

definition load_known_faces :: "np_array \<Rightarrow> disk_file \<Rightarrow> known_face list \<times> load_message list" where
  "load_known_faces np f =
     (case load_attempt np f of
        (Inr valid_data, out) \<Rightarrow> (valid_data, out)
      | (Inl e, out) \<Rightarrow>
          if e = FileNotFoundError \<or> e = EOFError \<or> e = UnpicklingError
          then ([], out @ [CouldNotLoad e])
          else ([], out @ [UnexpectedError e]))"

text \<open>What \<open>pickle.dump\<close> writes for a store.\<close>

definition pickle_of :: "known_face list \<Rightarrow> pyval" where
  "pickle_of data =
     PyList (map (\<lambda>kf. PyDict [(''name'', PyStr (name kf)), (''embedding'', PyArray (embedding kf))])
               data)"

text \<open>
  A run of \<open>save_known_faces\<close> meets no fault, or \<open>open\<close> raises, or \<open>pickle.dump\<close> raises
  after the file was opened.
\<close>

datatype save_fault = NoFault | OpenFails | DumpFails

text \<open>\<open>open(db_path, 'wb')\<close>: it raises, or the file exists and is empty from then on.\<close>

definition open_wb :: "save_fault \<Rightarrow> disk_file \<Rightarrow> py_error + disk_file" where
  "open_wb fault f = (if fault = OpenFails then Inl OtherException else Inr Truncated)"

text \<open>\<open>pickle.dump(data, f)\<close> on the opened file, with the file as it is afterwards.\<close>

definition pickle_dump :: "known_face list \<Rightarrow> save_fault \<Rightarrow> disk_file \<Rightarrow> (py_error + unit) \<times> disk_file" where
  "pickle_dump data fault opened =
     (if fault = DumpFails then (Inl OtherException, Truncated)
      else (Inr (), Pickled (pickle_of data)))"

text \<open>The two messages \<open>save_known_faces\<close> prints.\<close>

datatype save_message = SavedEntries nat | ErrorSaving

text \<open>
  \<open>save_known_faces\<close>: the file afterwards and the message printed. It returns \<open>None\<close> on
  every path, so the caller gets no value that tells the paths apart.
\<close>

definition save_known_faces :: "known_face list \<Rightarrow> save_fault \<Rightarrow> disk_file \<Rightarrow> disk_file \<times> save_message" where
  "save_known_faces data fault f =
     (case open_wb fault f of
        Inl e \<Rightarrow> (f, ErrorSaving)
      | Inr opened \<Rightarrow>
          (case pickle_dump data fault opened of
             (Inl e, f') \<Rightarrow> (f', ErrorSaving)
           | (Inr u, f') \<Rightarrow> (f', SavedEntries (length data))))"

section \<open>Python string methods\<close>

text \<open>
  \<open>str.strip()\<close> and \<open>str.lower()\<close> on ASCII text: the whitespace characters are the codes
  9 to 13, 28 to 31 and 32.
\<close>

definition is_space :: "char \<Rightarrow> bool" where
  "is_space c = (let n = (of_char c :: nat) in (9 \<le> n \<and> n \<le> 13) \<or> (28 \<le> n \<and> n \<le> 32))"

definition strip :: "string \<Rightarrow> string" where
  "strip s = rev (dropWhile is_space (rev (dropWhile is_space s)))"

definition lower_char :: "char \<Rightarrow> char" where
  "lower_char c = (let n = (of_char c :: nat) in if 65 \<le> n \<and> n \<le> 90 then char_of (n + 32) else c)"

definition lower :: "string \<Rightarrow> string" where
  "lower s = map lower_char s"

text \<open>
  What \<open>input()\<close> gives: the line typed (\<open>Inr\<close>), or one of the two exceptions the
  enrollment code handles (\<open>Inl\<close>).
\<close>

datatype interrupt = KeyboardInterrupt | EndOfInput

type_synonym prompt = "interrupt + string"

section \<open>enroll\_from\_image.py\<close>

text \<open>The loop that picks the largest face; it uses the box as the detector gives it.\<close>

fun largest_loop :: "face list \<Rightarrow> face option \<times> real \<Rightarrow> face option \<times> real" where
  "largest_loop [] acc = acc"
| "largest_loop (face_obj # rest) (target_face_obj, largest_face_area) =
     (case bbox face_obj of (x1, y1, x2, y2) \<Rightarrow>
        (let area = (x2 - x1) * (y2 - y1) in
         if area > largest_face_area then largest_loop rest (Some face_obj, area)
         else largest_loop rest (target_face_obj, largest_face_area)))"

text \<open>Step 4: the face to enroll, \<open>None\<close> where the function returns \<open>False\<close>.\<close>

definition select_face :: "face list \<Rightarrow> face option" where
  "select_face detected =
     (if detected = [] then None
      else if length detected = 1 then Some (hd detected)
      else fst (largest_loop detected (None, 0)))"

text \<open>
  What a run of \<open>enroll_from_image\<close> reads from outside: whether the model loaded, whether
  the path exists, the image of \<open>cv2.imread\<close>, the detected faces, the answer to the
  overwrite question if it is asked, and the fault the save meets.
\<close>

record image_env =
  ie_model_loaded :: bool
  ie_path_exists :: bool
  ie_image :: "image option"
  ie_detected_faces :: "face list"
  ie_overwrite :: prompt
  ie_save_fault :: save_fault

text \<open>
  \<open>enroll_from_image\<close>: the value returned (\<open>Inl\<close> when an exception of \<open>input()\<close> escapes,
  which the function does not catch), the file afterwards and the texts given to
  \<open>tts.speak\<close>.
\<close>

definition enroll_from_image ::
  "np_array \<Rightarrow> image_env \<Rightarrow> string \<Rightarrow> disk_file \<Rightarrow> (interrupt + bool) \<times> disk_file \<times> string list" where
  "enroll_from_image np env person_name f =
     (if \<not> ie_model_loaded env then (Inr False, f, [])
      else if \<not> ie_path_exists env then (Inr False, f, [])
      else case ie_image env of
        None \<Rightarrow> (Inr False, f, [])
      | Some img \<Rightarrow>
         (case select_face (ie_detected_faces env) of
            None \<Rightarrow> (Inr False, f, [])
          | Some target_face_obj \<Rightarrow>
             (case normed_embedding target_face_obj of
                None \<Rightarrow> (Inr False, f, [])
              | Some emb \<Rightarrow>
                 (let known_faces_db = fst (load_known_faces np f);
                      enrolled_names = set (map name known_faces_db);
                      name_to_enroll = strip person_name;
                      store = (\<lambda>db.
                        (let db' = db @ [\<lparr>name = name_to_enroll, embedding = emb\<rparr>]
                         in (Inr True, fst (save_known_faces db' (ie_save_fault env) f),
                             [name_to_enroll @ '' has been enrolled from image.''])))
                  in if name_to_enroll = [] then (Inr False, f, [])
                     else if name_to_enroll \<in> enrolled_names then
                       (case ie_overwrite env of
                          Inl exc \<Rightarrow> (Inl exc, f, [])
                        | Inr answer \<Rightarrow>
                            if lower (strip answer) \<noteq> ''y'' then (Inr False, f, [])
                            else store (filter (\<lambda>kf. name kf \<noteq> name_to_enroll) known_faces_db))
                     else store known_faces_db))))"

section \<open>face\_enroll.py: live enrollment\<close>

definition CAPTURE_KEY :: nat where
  "CAPTURE_KEY = 115"

definition QUIT_KEY :: nat where
  "QUIT_KEY = 113"

definition CAPTURE_COOLDOWN :: real where
  "CAPTURE_COOLDOWN = 2"

definition PREVIEW_DETECTION_INTERVAL :: real where
  "PREVIEW_DETECTION_INTERVAL = 1 / 5"

text \<open>
  The variables of \<open>enroll_face\<close>, the database file, and the texts given to \<open>tts.speak\<close>.
\<close>

record enroll_state =
  known_faces_db :: "known_face list"
  enrolled_names :: "string set"
  last_capture_attempt_time :: real
  last_preview_detection_time :: real
  target_face_obj_for_preview :: "face option"
  db_file :: disk_file
  enroll_speak_calls :: "string list"

text \<open>
  What one iteration reads from outside: the frame, \<open>time.time()\<close> at the top of the
  iteration, the faces of the preview detection, the key, \<open>time.time()\<close> at the capture,
  the faces found on the frozen frame, the answers to the two prompts, and the fault the
  save meets. An iteration uses only the inputs it gets to.
\<close>

record capture =
  c_frame :: "image option"
  c_time :: real
  c_preview_faces :: "face list"
  c_key :: nat
  c_press_time :: real
  c_frozen_faces :: "face list"
  c_name_input :: prompt
  c_overwrite_input :: prompt
  c_save_fault :: save_fault

text \<open>
  The end of a capture: \<open>append\<close>, \<open>save_known_faces\<close>, \<open>enrolled_names.add\<close> and the spoken
  confirmation.
\<close>

definition enroll_store ::
  "enroll_state \<Rightarrow> known_face list \<Rightarrow> string \<Rightarrow> real list \<Rightarrow> save_fault \<Rightarrow> enroll_state" where
  "enroll_store s db nm emb fault =
     (let db' = db @ [\<lparr>name = nm, embedding = emb\<rparr>]
      in s\<lparr>known_faces_db := db',
           db_file := fst (save_known_faces db' fault (db_file s)),
           enrolled_names := insert nm (enrolled_names s),
           enroll_speak_calls := enroll_speak_calls s @ [nm @ '' has been enrolled.'']\<rparr>)"

text \<open>
  The capture from the name prompt on, for the embedding \<open>emb\<close> that was extracted.
\<close>

definition name_prompt :: "enroll_state \<Rightarrow> real list \<Rightarrow> capture \<Rightarrow> control \<times> enroll_state" where
  "name_prompt s emb c =
     (case c_name_input c of
        Inl KeyboardInterrupt \<Rightarrow> (Continue, s)
      | Inl EndOfInput \<Rightarrow> (Break, s)
      | Inr typed \<Rightarrow>
         (let nm = strip typed in
          if lower nm = ''cancel'' \<or> nm = [] then (Continue, s)
          else if nm \<in> enrolled_names s then
            (case c_overwrite_input c of
               Inl KeyboardInterrupt \<Rightarrow> (Continue, s)
             | Inl EndOfInput \<Rightarrow> (Break, s)
             | Inr answer \<Rightarrow>
                 if lower (strip answer) \<noteq> ''y'' then (Continue, s)
                 else (Continue,
                       enroll_store s (filter (\<lambda>kf. name kf \<noteq> nm) (known_faces_db s)) nm emb
                         (c_save_fault c)))
          else (Continue, enroll_store s (known_faces_db s) nm emb (c_save_fault c))))"

text \<open>The branch of the capture key.\<close>

definition capture_logic :: "enroll_state \<Rightarrow> image \<Rightarrow> capture \<Rightarrow> control \<times> enroll_state" where
  "capture_logic s live_frame c =
     (if c_press_time c - last_capture_attempt_time s < CAPTURE_COOLDOWN then (Continue, s)
      else
       (let s1 = s\<lparr>last_capture_attempt_time := c_press_time c\<rparr> in
        if target_face_obj_for_preview s1 = None then (Continue, s1)
        else if c_frozen_faces c = [] then (Continue, s1)
        else case get_center_most_face (c_frozen_faces c) (cols live_frame) (rows live_frame) of
          None \<Rightarrow> (Continue, s1)
        | Some actual_target_face_obj_for_enrollment \<Rightarrow>
           (case normed_embedding actual_target_face_obj_for_enrollment of
              None \<Rightarrow> (Continue, s1)
            | Some emb \<Rightarrow>
                if emb = [] then (Continue, s1) else name_prompt s1 emb c)))"

text \<open>One iteration of the \<open>while True\<close> of \<open>enroll_face\<close>.\<close>

definition enroll_step :: "enroll_state \<Rightarrow> capture \<Rightarrow> control \<times> enroll_state" where
  "enroll_step s c =
     (case c_frame c of
        None \<Rightarrow> (Continue, s)
      | Some live_frame \<Rightarrow>
         (let s1 =
            (if c_time c - last_preview_detection_time s > PREVIEW_DETECTION_INTERVAL
             then s\<lparr>last_preview_detection_time := c_time c,
                    target_face_obj_for_preview :=
                      (if c_preview_faces c \<noteq> []
                       then get_center_most_face (c_preview_faces c) (cols live_frame) (rows live_frame)
                       else None)\<rparr>
             else s)
          in if c_key c = CAPTURE_KEY then capture_logic s1 live_frame c
             else if c_key c = QUIT_KEY then (Break, s1)
             else (Continue, s1)))"

text \<open>The state \<open>enroll_face\<close> starts its loop in, for the file it finds.\<close>

definition enroll_initial :: "np_array \<Rightarrow> disk_file \<Rightarrow> enroll_state" where
  "enroll_initial np f =
     (let db = fst (load_known_faces np f) in
      \<lparr>known_faces_db = db, enrolled_names = set (map name db),
       last_capture_attempt_time = 0, last_preview_detection_time = 0,
       target_face_obj_for_preview = None, db_file = f, enroll_speak_calls = []\<rparr>)"

section \<open>Concrete values for the examples\<close>

text \<open>
  A resize by nearest neighbour, which raises on an empty target size as \<open>cv2.resize\<close>
  does; it stands in for \<open>cv2.resize\<close> where an example needs a concrete function.
\<close>

definition nearest_resize :: resize where
  "nearest_resize img dsize =
     (case dsize of (w, h) \<Rightarrow>
        if w = 0 \<or> h = 0 then None
        else Some \<lparr>rows = h, cols = w, channels = channels img,
                   pixel = (\<lambda>r c k. pixel img (r * rows img div h) (c * cols img div w) k)\<rparr>)"

text \<open>
  \<open>np.array(value, dtype=np.float32)\<close> on the values the examples use: an array and a list
  of numbers convert to the vector of their elements, a dict raises \<open>TypeError\<close>. On the
  other values it raises \<open>ValueError\<close> here; the examples do not use them.
\<close>

fun number_of :: "pyval \<Rightarrow> real option" where
  "number_of (PyInt i) = Some (real_of_int i)"
| "number_of (PyFloat r) = Some r"
| "number_of v = None"

definition np_array_float32 :: np_array where
  "np_array_float32 v =
     (case v of
        PyArray xs \<Rightarrow> Inr xs
      | PyList vs \<Rightarrow>
          if list_all (\<lambda>x. number_of x \<noteq> None) vs then Inr (map (\<lambda>x. the (number_of x)) vs)
          else Inl ValueError
      | PyDict d \<Rightarrow> Inl TypeError
      | _ \<Rightarrow> Inl ValueError)"

definition example_frame :: image where
  "example_frame = \<lparr>rows = 100, cols = 100, channels = Some 3, pixel = (\<lambda>r c k. r + c + k)\<rparr>"

text \<open>
  The dot product without rounding; it stands in for \<open>np.dot\<close> in the examples, whose
  vectors have elements that float32 holds exactly and products and sums that it holds
  exactly as well.
\<close>

definition exact_dot :: np_dot where
  "exact_dot a b = Finite (\<Sum>(x, y) \<leftarrow> zip a b. x * y)"

definition example_db :: "known_face list" where
  "example_db =
     [\<lparr>name = ''Alice'', embedding = [1 / 2, 3 / 4]\<rparr>,
      \<lparr>name = ''Bob'', embedding = [3 / 4, 1 / 2]\<rparr>,
      \<lparr>name = ''Carol'', embedding = [3 / 4, - 1 / 2]\<rparr>]"

text \<open>
  A store with an entry of the empty name and a store with an embedding of three
  elements, for a query of two.
\<close>

definition unnamed_db :: "known_face list" where
  "unnamed_db = [\<lparr>name = [], embedding = [1, 0]\<rparr>]"

definition longer_db :: "known_face list" where
  "longer_db = [\<lparr>name = ''Eve'', embedding = [1, 0, 0]\<rparr>]"

definition example_faces :: "face list" where
  "example_faces =
     [\<lparr>bbox = (0, 0, 10, 10), normed_embedding = None\<rparr>,
      \<lparr>bbox = (90, 90, 100, 100), normed_embedding = Some [1, 0]\<rparr>]"

text \<open>
  Detections with boxes in floats, in a frame of 100 by 100: the second and the third
  box have the same center once cast to integers. And two detections in a frame of 12
  by 10: the center of the first box is nearer to the center of the frame, the center of
  the second box is nearer once both are cast to integers.
\<close>

definition float_faces :: "face list" where
  "float_faces =
     [\<lparr>bbox = (0, 0, 10, 10), normed_embedding = None\<rparr>,
      \<lparr>bbox = (407 / 10, 201 / 5, 609 / 10, 121 / 2), normed_embedding = Some [1, 0]\<rparr>,
      \<lparr>bbox = (40, 40, 60, 60), normed_embedding = Some [0, 1]\<rparr>]"

definition nearer_face :: face where
  "nearer_face = \<lparr>bbox = (0, 0, 119 / 10, 10), normed_embedding = None\<rparr>"

definition farther_face :: face where
  "farther_face = \<lparr>bbox = (0, 0, 62 / 5, 10), normed_embedding = None\<rparr>"

text \<open>
  A session under way: entered at time 10 on a box of 20 by 20 pixels, with a pending
  greet target.
\<close>

definition example_session :: loop_state where
  "example_session =
     initial_state\<lparr>zoom_active := True, zoom_return_time := 117 / 10,
                   name_to_greet_after_zoom := Some ''Bob'',
                   current_processing_bbox_for_zoom := Some (40, 40, 60, 60)\<rparr>"

text \<open>Faces and ticks of the examples; the second face is less than a pixel wide.\<close>

definition bob_face :: face where
  "bob_face = \<lparr>bbox = (40, 40, 60, 60), normed_embedding = Some [1, 0]\<rparr>"

definition thin_face :: face where
  "thin_face = \<lparr>bbox = (10, 10, 21 / 2, 20), normed_embedding = None\<rparr>"

definition tick_at :: "real \<Rightarrow> face list \<Rightarrow> tick" where
  "tick_at now faces =
     \<lparr>t_frame = Some example_frame, t_time = now, t_detect = (\<lambda>enhanced. faces), t_key = 0\<rparr>"

section \<open>What the specification says of the center-most detection\<close>

text \<open>
  The following definitions state the distance of a detection in the words of the
  specification, to be compared with the loop of \<open>get_center_most_face\<close>: the center of
  a box, the center of the frame, and the squared Euclidean distance of two points.
\<close>

definition box_center :: "bbox \<Rightarrow> real \<times> real" where
  "box_center b = (case b of (x1, y1, x2, y2) \<Rightarrow> ((x1 + x2) / 2, (y1 + y2) / 2))"

definition frame_center :: "nat \<Rightarrow> nat \<Rightarrow> real \<times> real" where
  "frame_center w h = (real w / 2, real h / 2)"

definition squared_distance :: "real \<times> real \<Rightarrow> real \<times> real \<Rightarrow> real" where
  "squared_distance p c = (fst p - fst c)\<^sup>2 + (snd p - snd c)\<^sup>2"

text \<open>A box with every coordinate cut to its integer part (rounded towards zero).\<close>

definition integer_part :: "real \<Rightarrow> real" where
  "integer_part r = sgn r * real_of_int \<lfloor>\<bar>r\<bar>\<rfloor>"

definition truncated_box :: "bbox \<Rightarrow> bbox" where
  "truncated_box b =
     (case b of (x1, y1, x2, y2) \<Rightarrow>
        (integer_part x1, integer_part y1, integer_part x2, integer_part y2))"

section \<open>What the specification says of a loaded list\<close>

text \<open>
  The following definitions state the result of a load in the words of the
  specification, to be compared with \<open>load_known_faces\<close>. The field of an item, if the
  item is a dict that has it.
\<close>

definition item_field :: "string \<Rightarrow> pyval \<Rightarrow> pyval option" where
  "item_field k item = (case item of PyDict d \<Rightarrow> map_of d k | _ \<Rightarrow> None)"

definition has_both_fields :: "pyval \<Rightarrow> bool" where
  "has_both_fields item = (item_field ''name'' item \<noteq> None \<and> item_field ''embedding'' item \<noteq> None)"

definition string_name :: "pyval \<Rightarrow> string option" where
  "string_name item = (case item_field ''name'' item of Some (PyStr s) \<Rightarrow> Some s | _ \<Rightarrow> None)"

text \<open>The entry an item gives: none when a field is missing or the name is no string.\<close>

definition spec_entry :: "np_array \<Rightarrow> pyval \<Rightarrow> known_face option" where
  "spec_entry np item =
     (if has_both_fields item then
        (case (string_name item, np (the (item_field ''embedding'' item))) of
           (Some s, Inr arr) \<Rightarrow> Some \<lparr>name = s, embedding = arr\<rparr>
         | _ \<Rightarrow> None)
      else None)"

definition spec_valid_entries :: "np_array \<Rightarrow> pyval list \<Rightarrow> known_face list" where
  "spec_valid_entries np items = List.map_filter (spec_entry np) items"

text \<open>The warning an item gives: none when it has both fields and a string name.\<close>

definition spec_warning :: "pyval \<Rightarrow> load_message option" where
  "spec_warning item =
     (if \<not> has_both_fields item then Some (SkippingMalformed item)
      else if string_name item = None then Some (SkippingNonStringName item)
      else None)"

definition spec_warnings :: "pyval list \<Rightarrow> load_message list" where
  "spec_warnings items = List.map_filter spec_warning items"

text \<open>Every embedding of an item that has both fields converts to an array.\<close>

definition all_convert :: "np_array \<Rightarrow> pyval list \<Rightarrow> bool" where
  "all_convert np items =
     list_all (\<lambda>item. has_both_fields item \<longrightarrow> \<not> isl (np (the (item_field ''embedding'' item))))
       items"

definition alice_item :: pyval where
  "alice_item = PyDict [(''name'', PyStr ''Alice''), (''embedding'', PyArray [1 / 2, 3 / 4])]"

definition broken_item :: pyval where
  "broken_item = PyDict [(''name'', PyStr ''Bob''), (''embedding'', PyDict [])]"

definition nameless_item :: pyval where
  "nameless_item = PyDict [(''name'', PyInt 7), (''embedding'', PyArray [1, 0])]"

text \<open>
  A cancellation of the name prompt that the loop answers with \<open>continue\<close>, in the words of
  the specification: a keyboard interrupt, an empty line, or the token \<open>cancel\<close>.
\<close>

definition cancels :: "prompt \<Rightarrow> bool" where
  "cancels p =
     (case p of
        Inl KeyboardInterrupt \<Rightarrow> True
      | Inl EndOfInput \<Rightarrow> False
      | Inr typed \<Rightarrow> strip typed = [] \<or> lower (strip typed) = ''cancel'')"

definition example_capture :: "prompt \<Rightarrow> capture" where
  "example_capture typed =
     \<lparr>c_frame = Some example_frame, c_time = 10, c_preview_faces = [bob_face], c_key = 115,
      c_press_time = 10, c_frozen_faces = [bob_face], c_name_input = typed,
      c_overwrite_input = Inr ''y'', c_save_fault = NoFault\<rparr>"

text \<open>A run of the enrollment from an image that finds one face and is answered Y.\<close>

definition example_image_env :: image_env where
  "example_image_env =
     \<lparr>ie_model_loaded = True, ie_path_exists = True, ie_image = Some example_frame,
      ie_detected_faces = [bob_face], ie_overwrite = Inr ''Y '', ie_save_fault = NoFault\<rparr>"

section \<open>Properties of the selector and the matcher\<close>

lemma center_loop_first_min:
  "(center_loop w h fs (c, Some m) = (c, Some m) \<and> (\<forall>y \<in> set fs. m \<le> dist_sq w h y)) \<or>
   (\<exists>pre x post. fs = pre @ x # post \<and>
      center_loop w h fs (c, Some m) = (Some x, Some (dist_sq w h x)) \<and>
      dist_sq w h x < m \<and>
      (\<forall>y \<in> set pre. dist_sq w h x < dist_sq w h y) \<and>
      (\<forall>y \<in> set post. dist_sq w h x \<le> dist_sq w h y))"
proof (induction fs arbitrary: c m)
  case Nil
  then show ?case by simp
next
  case (Cons f fs)
  show ?case
  proof (cases "dist_sq w h f < m")
    case True
    from Cons.IH [of "Some f" "dist_sq w h f"] show ?thesis
    proof
      assume keep: "center_loop w h fs (Some f, Some (dist_sq w h f)) = (Some f, Some (dist_sq w h f)) \<and>
                    (\<forall>y \<in> set fs. dist_sq w h f \<le> dist_sq w h y)"
      have "f # fs = [] @ f # fs" by simp
      with keep True show ?thesis
        by (intro disjI2 exI [of _ "[]"] exI [of _ f] exI [of _ fs]) simp
    next
      assume "\<exists>pre x post. fs = pre @ x # post \<and>
                center_loop w h fs (Some f, Some (dist_sq w h f)) = (Some x, Some (dist_sq w h x)) \<and>
                dist_sq w h x < dist_sq w h f \<and>
                (\<forall>y \<in> set pre. dist_sq w h x < dist_sq w h y) \<and>
                (\<forall>y \<in> set post. dist_sq w h x \<le> dist_sq w h y)"
      then obtain pre x post where d: "fs = pre @ x # post"
        and r: "center_loop w h fs (Some f, Some (dist_sq w h f)) = (Some x, Some (dist_sq w h x))"
        and lt: "dist_sq w h x < dist_sq w h f"
        and pre: "\<forall>y \<in> set pre. dist_sq w h x < dist_sq w h y"
        and post: "\<forall>y \<in> set post. dist_sq w h x \<le> dist_sq w h y"
        by blast
      from d r lt pre post True show ?thesis
        by (intro disjI2 exI [of _ "f # pre"] exI [of _ x] exI [of _ post]) auto
    qed
  next
    case False
    from Cons.IH [of c m] show ?thesis
    proof
      assume "center_loop w h fs (c, Some m) = (c, Some m) \<and> (\<forall>y \<in> set fs. m \<le> dist_sq w h y)"
      with False show ?thesis by (intro disjI1) auto
    next
      assume "\<exists>pre x post. fs = pre @ x # post \<and>
                center_loop w h fs (c, Some m) = (Some x, Some (dist_sq w h x)) \<and>
                dist_sq w h x < m \<and>
                (\<forall>y \<in> set pre. dist_sq w h x < dist_sq w h y) \<and>
                (\<forall>y \<in> set post. dist_sq w h x \<le> dist_sq w h y)"
      then obtain pre x post where d: "fs = pre @ x # post"
        and r: "center_loop w h fs (c, Some m) = (Some x, Some (dist_sq w h x))"
        and lt: "dist_sq w h x < m"
        and pre: "\<forall>y \<in> set pre. dist_sq w h x < dist_sq w h y"
        and post: "\<forall>y \<in> set post. dist_sq w h x \<le> dist_sq w h y"
        by blast
      from d r lt pre post False show ?thesis
        by (intro disjI2 exI [of _ "f # pre"] exI [of _ x] exI [of _ post]) auto
    qed
  qed
qed

lemma center_loop_start:
  "center_loop w h (f # fs) (None, None) = center_loop w h fs (Some f, Some (dist_sq w h f))"
  by (simp add: Let_def)

lemma get_center_most_face_dist_sq:
  "get_center_most_face [] w h = None \<and>
   (faces \<noteq> [] \<longrightarrow>
      (\<exists>pre x post. faces = pre @ x # post \<and>
         get_center_most_face faces w h = Some x \<and>
         (\<forall>y \<in> set pre. dist_sq w h x < dist_sq w h y) \<and>
         (\<forall>y \<in> set post. dist_sq w h x \<le> dist_sq w h y)))"
proof (intro conjI impI)
  show "get_center_most_face [] w h = None"
    by (simp add: get_center_most_face_def)
next
  assume "faces \<noteq> []"
  then obtain f fs where faces: "faces = f # fs"
    by (cases faces) auto
  have res: "get_center_most_face faces w h = fst (center_loop w h fs (Some f, Some (dist_sq w h f)))"
    unfolding faces get_center_most_face_def center_loop_start by simp
  from center_loop_first_min [of w h fs "Some f" "dist_sq w h f"]
  show "\<exists>pre x post. faces = pre @ x # post \<and>
         get_center_most_face faces w h = Some x \<and>
         (\<forall>y \<in> set pre. dist_sq w h x < dist_sq w h y) \<and>
         (\<forall>y \<in> set post. dist_sq w h x \<le> dist_sq w h y)"
  proof
    assume "center_loop w h fs (Some f, Some (dist_sq w h f)) = (Some f, Some (dist_sq w h f)) \<and>
            (\<forall>y \<in> set fs. dist_sq w h f \<le> dist_sq w h y)"
    with res faces show ?thesis
      by (intro exI [of _ "[]"] exI [of _ f] exI [of _ fs]) simp
  next
    assume "\<exists>pre x post. fs = pre @ x # post \<and>
              center_loop w h fs (Some f, Some (dist_sq w h f)) = (Some x, Some (dist_sq w h x)) \<and>
              dist_sq w h x < dist_sq w h f \<and>
              (\<forall>y \<in> set pre. dist_sq w h x < dist_sq w h y) \<and>
              (\<forall>y \<in> set post. dist_sq w h x \<le> dist_sq w h y)"
    then obtain pre x post where d: "fs = pre @ x # post"
      and r: "center_loop w h fs (Some f, Some (dist_sq w h f)) = (Some x, Some (dist_sq w h x))"
      and lt: "dist_sq w h x < dist_sq w h f"
      and pre: "\<forall>y \<in> set pre. dist_sq w h x < dist_sq w h y"
      and post: "\<forall>y \<in> set post. dist_sq w h x \<le> dist_sq w h y"
      by blast
    from d r lt pre post res faces show ?thesis
      by (intro exI [of _ "f # pre"] exI [of _ x] exI [of _ post]) auto
  qed
qed

lemma get_center_most_face_example_tie:
  "get_center_most_face example_faces 100 100 = Some (hd example_faces)"
  by (simp add: get_center_most_face_def example_faces_def dist_sq_def bbox_astype_int_def
      astype_int_def)

lemma get_center_most_face_example_second:
  "get_center_most_face example_faces 120 120 = Some (last example_faces)"
  by (simp add: get_center_most_face_def example_faces_def dist_sq_def bbox_astype_int_def
      astype_int_def)

lemma astype_int_integer_part: "real_of_int (astype_int r) = integer_part r"
proof (cases "0 \<le> r")
  case True
  then show ?thesis
    by (cases "r = 0") (simp_all add: astype_int_def integer_part_def)
next
  case False
  then have "sgn r = - 1" "\<bar>r\<bar> = - r" by simp_all
  with False show ?thesis
    by (simp add: astype_int_def integer_part_def ceiling_def)
qed

lemma dist_sq_truncated_box:
  "dist_sq w h f = squared_distance (box_center (truncated_box (bbox f))) (frame_center w h)"
  by (cases "bbox f")
     (simp add: dist_sq_def bbox_astype_int_def Let_def squared_distance_def box_center_def
      truncated_box_def frame_center_def astype_int_integer_part [symmetric])

text \<open>
  C8, amended. On an empty list the center-most selector returns \<open>None\<close>. On a non-empty
  list it returns a detection \<open>x\<close> of the list for which the squared Euclidean distance
  from the center of its box, the coordinates of the box cut to their integer parts, to
  the center of the frame is minimal: every detection before \<open>x\<close> is strictly farther
  and every detection after \<open>x\<close> is at least as far, so among equidistant detections the
  first one is returned.
\<close>

theorem get_center_most_face_first_min:
  "get_center_most_face [] w h = None \<and>
   (faces \<noteq> [] \<longrightarrow>
      (\<exists>pre x post. faces = pre @ x # post \<and>
         get_center_most_face faces w h = Some x \<and>
         (\<forall>y \<in> set pre.
            squared_distance (box_center (truncated_box (bbox x))) (frame_center w h) <
            squared_distance (box_center (truncated_box (bbox y))) (frame_center w h)) \<and>
         (\<forall>y \<in> set post.
            squared_distance (box_center (truncated_box (bbox x))) (frame_center w h) \<le>
            squared_distance (box_center (truncated_box (bbox y))) (frame_center w h))))"
  using get_center_most_face_dist_sq [of w h faces]
  unfolding dist_sq_truncated_box .

lemma float_faces_distances:
  "squared_distance (box_center (truncated_box (bbox (float_faces ! 0)))) (frame_center 100 100) = 4050"
  "squared_distance (box_center (truncated_box (bbox (float_faces ! 1)))) (frame_center 100 100) = 0"
  "squared_distance (box_center (truncated_box (bbox (float_faces ! 2)))) (frame_center 100 100) = 0"
  by (simp_all add: float_faces_def squared_distance_def box_center_def truncated_box_def
      frame_center_def integer_part_def power2_eq_square)

lemma get_center_most_face_float_faces:
  "get_center_most_face float_faces 100 100 = Some (float_faces ! 1)"
  by code_simp

theorem get_center_most_face_first_min_witness:
  "float_faces \<noteq> [] \<and>
   (\<exists>pre x post. float_faces = pre @ x # post \<and>
      get_center_most_face float_faces 100 100 = Some x \<and>
      (\<forall>y \<in> set pre.
         squared_distance (box_center (truncated_box (bbox x))) (frame_center 100 100) <
         squared_distance (box_center (truncated_box (bbox y))) (frame_center 100 100)) \<and>
      (\<forall>y \<in> set post.
         squared_distance (box_center (truncated_box (bbox x))) (frame_center 100 100) \<le>
         squared_distance (box_center (truncated_box (bbox y))) (frame_center 100 100))) \<and>
   get_center_most_face float_faces 100 100 = Some (float_faces ! 1) \<and>
   squared_distance (box_center (truncated_box (bbox (float_faces ! 0)))) (frame_center 100 100) = 4050 \<and>
   squared_distance (box_center (truncated_box (bbox (float_faces ! 1)))) (frame_center 100 100) = 0 \<and>
   squared_distance (box_center (truncated_box (bbox (float_faces ! 2)))) (frame_center 100 100) = 0"
proof -
  have ne: "float_faces \<noteq> []"
    by (simp add: float_faces_def)
  with get_center_most_face_first_min [of 100 100 float_faces]
  have "\<exists>pre x post. float_faces = pre @ x # post \<and>
      get_center_most_face float_faces 100 100 = Some x \<and>
      (\<forall>y \<in> set pre.
         squared_distance (box_center (truncated_box (bbox x))) (frame_center 100 100) <
         squared_distance (box_center (truncated_box (bbox y))) (frame_center 100 100)) \<and>
      (\<forall>y \<in> set post.
         squared_distance (box_center (truncated_box (bbox x))) (frame_center 100 100) \<le>
         squared_distance (box_center (truncated_box (bbox y))) (frame_center 100 100))"
    by blast
  with ne float_faces_distances get_center_most_face_float_faces show ?thesis
    by blast
qed

text \<open>
  The claim as stated fails on boxes in floats: of two detections the selector returns
  the second, although the center of the box of the first is nearer to the center of the
  frame.
\<close>

theorem get_center_most_face_truncation_counterexample:
  "get_center_most_face [nearer_face, farther_face] 12 10 = Some farther_face \<and>
   squared_distance (box_center (bbox nearer_face)) (frame_center 12 10) <
   squared_distance (box_center (bbox farther_face)) (frame_center 12 10)"
  by code_simp

lemma float_gt_irrefl: "\<not> float_gt a a"
  by (cases a) simp_all

lemma float_gt_NaN: "\<not> float_gt a NaN" "\<not> float_gt NaN a"
  by (cases a; simp)+

lemma float_gt_trans: "float_gt a b \<Longrightarrow> float_gt b c \<Longrightarrow> float_gt a c"
  by (cases a; cases b; cases c) simp_all

lemma float_gt_total: "a \<noteq> NaN \<Longrightarrow> b \<noteq> NaN \<Longrightarrow> float_gt a b \<or> a = b \<or> float_gt b a"
  by (cases a; cases b) auto

lemma float_gt_below:
  assumes "float_gt x t" and "\<not> float_gt y t" and "y \<noteq> NaN"
  shows "float_gt x y"
proof -
  from assms(1) have "t \<noteq> NaN"
    using float_gt_NaN(1) by blast
  with assms(3) float_gt_total [of y t] assms(2) have "y = t \<or> float_gt t y"
    by blast
  with assms(1) show ?thesis
    using float_gt_trans by blast
qed

lemma match_loop_first_max:
  assumes len: "\<forall>kf \<in> set db. length (embedding kf) = length q"
  shows
  "(match_loop nd q db (b, m) = Inr (b, m) \<and>
      (\<forall>y \<in> set db. \<not> (float_gt (nd q (embedding y)) (Finite SIMILARITY_THRESHOLD) \<and>
                         float_gt (nd q (embedding y)) m))) \<or>
   (\<exists>pre x post. db = pre @ x # post \<and>
      match_loop nd q db (b, m) = Inr (Some (name x), nd q (embedding x)) \<and>
      float_gt (nd q (embedding x)) (Finite SIMILARITY_THRESHOLD) \<and>
      float_gt (nd q (embedding x)) m \<and>
      (\<forall>y \<in> set pre. nd q (embedding y) = NaN \<or> float_gt (nd q (embedding x)) (nd q (embedding y))) \<and>
      (\<forall>y \<in> set post. \<not> float_gt (nd q (embedding y)) (nd q (embedding x))))"
  using len
proof (induction db arbitrary: b m)
  case Nil
  then show ?case by simp
next
  case (Cons kf db)
  let ?s = "\<lambda>y. nd q (embedding y)"
  let ?T = "Finite SIMILARITY_THRESHOLD"
  from Cons.prems have cmp: "compare_embeddings nd q (embedding kf) = Inr (?s kf)"
    and len': "\<forall>kf \<in> set db. length (embedding kf) = length q"
    by (simp_all add: compare_embeddings_def)
  show ?case
  proof (cases "float_gt (?s kf) ?T \<and> float_gt (?s kf) m")
    case True
    from Cons.IH [OF len', of "Some (name kf)" "?s kf"] show ?thesis
    proof
      assume keep: "match_loop nd q db (Some (name kf), ?s kf) = Inr (Some (name kf), ?s kf) \<and>
                    (\<forall>y \<in> set db. \<not> (float_gt (?s y) ?T \<and> float_gt (?s y) (?s kf)))"
      with True have "\<forall>y \<in> set db. \<not> float_gt (?s y) (?s kf)"
        using float_gt_trans by blast
      with keep True cmp show ?thesis
        by (intro disjI2 exI [of _ "[]"] exI [of _ kf] exI [of _ db]) simp
    next
      assume "\<exists>pre x post. db = pre @ x # post \<and>
                match_loop nd q db (Some (name kf), ?s kf) = Inr (Some (name x), ?s x) \<and>
                float_gt (?s x) ?T \<and> float_gt (?s x) (?s kf) \<and>
                (\<forall>y \<in> set pre. ?s y = NaN \<or> float_gt (?s x) (?s y)) \<and>
                (\<forall>y \<in> set post. \<not> float_gt (?s y) (?s x))"
      then obtain pre x post where d: "db = pre @ x # post"
        and r: "match_loop nd q db (Some (name kf), ?s kf) = Inr (Some (name x), ?s x)"
        and gt: "float_gt (?s x) ?T" "float_gt (?s x) (?s kf)"
        and pre: "\<forall>y \<in> set pre. ?s y = NaN \<or> float_gt (?s x) (?s y)"
        and post: "\<forall>y \<in> set post. \<not> float_gt (?s y) (?s x)"
        by blast
      from gt(2) True have "float_gt (?s x) m"
        using float_gt_trans by blast
      with d r gt pre post True cmp show ?thesis
        by (intro disjI2 exI [of _ "kf # pre"] exI [of _ x] exI [of _ post]) auto
    qed
  next
    case False
    from Cons.IH [OF len', of b m] show ?thesis
    proof
      assume "match_loop nd q db (b, m) = Inr (b, m) \<and>
              (\<forall>y \<in> set db. \<not> (float_gt (?s y) ?T \<and> float_gt (?s y) m))"
      with False cmp show ?thesis by (intro disjI1) auto
    next
      assume "\<exists>pre x post. db = pre @ x # post \<and>
                match_loop nd q db (b, m) = Inr (Some (name x), ?s x) \<and>
                float_gt (?s x) ?T \<and> float_gt (?s x) m \<and>
                (\<forall>y \<in> set pre. ?s y = NaN \<or> float_gt (?s x) (?s y)) \<and>
                (\<forall>y \<in> set post. \<not> float_gt (?s y) (?s x))"
      then obtain pre x post where d: "db = pre @ x # post"
        and r: "match_loop nd q db (b, m) = Inr (Some (name x), ?s x)"
        and gt: "float_gt (?s x) ?T" "float_gt (?s x) m"
        and pre: "\<forall>y \<in> set pre. ?s y = NaN \<or> float_gt (?s x) (?s y)"
        and post: "\<forall>y \<in> set post. \<not> float_gt (?s y) (?s x)"
        by blast
      from False gt have here: "?s kf = NaN \<or> float_gt (?s x) (?s kf)"
        using float_gt_below by blast
      from d r gt pre post here False cmp show ?thesis
        by (intro disjI2 exI [of _ "kf # pre"] exI [of _ x] exI [of _ post]) auto
    qed
  qed
qed

text \<open>
  C1, amended. The store holds entries with a non-empty name and an embedding of the
  length of the query; the similarity of an entry is what \<open>np.dot\<close> returns for the query
  and its embedding. On the empty store the matcher returns \<open>Unknown\<close> whatever the query
  is. On a non-empty store, when some similarity exceeds the threshold 0.50 the matcher
  returns the name of an entry \<open>x\<close> whose similarity exceeds the threshold and is the
  maximum (no entry is more similar), and \<open>x\<close> is the first entry of that similarity;
  when no similarity exceeds the threshold it returns \<open>Unknown\<close>.
\<close>

theorem best_match_max_above_threshold:
  assumes names: "\<forall>kf \<in> set db. name kf \<noteq> []"
    and len: "\<forall>kf \<in> set db. length (embedding kf) = length q"
  shows "best_match nd q [] = Inr ''Unknown'' \<and>
    (db \<noteq> [] \<longrightarrow>
      (if \<exists>kf \<in> set db. float_gt (nd q (embedding kf)) (Finite SIMILARITY_THRESHOLD)
       then \<exists>pre x post. db = pre @ x # post \<and>
              best_match nd q db = Inr (name x) \<and>
              float_gt (nd q (embedding x)) (Finite SIMILARITY_THRESHOLD) \<and>
              (\<forall>y \<in> set db. \<not> float_gt (nd q (embedding y)) (nd q (embedding x))) \<and>
              (\<forall>y \<in> set pre. nd q (embedding y) \<noteq> nd q (embedding x))
       else best_match nd q db = Inr ''Unknown''))"
proof (intro conjI impI)
  show "best_match nd q [] = Inr ''Unknown''"
    by (simp add: best_match_def)
next
  assume ne: "db \<noteq> []"
  let ?s = "\<lambda>y. nd q (embedding y)"
  let ?T = "Finite SIMILARITY_THRESHOLD"
  have above: "float_gt ?T (Finite (- 1))"
    by (simp add: SIMILARITY_THRESHOLD_def)
  from match_loop_first_max [OF len, of nd None "Finite (- 1)"]
  show "if \<exists>kf \<in> set db. float_gt (?s kf) ?T
        then \<exists>pre x post. db = pre @ x # post \<and> best_match nd q db = Inr (name x) \<and>
               float_gt (?s x) ?T \<and> (\<forall>y \<in> set db. \<not> float_gt (?s y) (?s x)) \<and>
               (\<forall>y \<in> set pre. ?s y \<noteq> ?s x)
        else best_match nd q db = Inr ''Unknown''"
  proof
    assume keep: "match_loop nd q db (None, Finite (- 1)) = Inr (None, Finite (- 1)) \<and>
                  (\<forall>y \<in> set db. \<not> (float_gt (?s y) ?T \<and> float_gt (?s y) (Finite (- 1))))"
    with above have none: "\<not> (\<exists>kf \<in> set db. float_gt (?s kf) ?T)"
      using float_gt_trans by blast
    from keep ne have "best_match nd q db = Inr ''Unknown''"
      by (simp add: best_match_def truthy_def)
    with none show ?thesis by simp
  next
    assume "\<exists>pre x post. db = pre @ x # post \<and>
              match_loop nd q db (None, Finite (- 1)) = Inr (Some (name x), ?s x) \<and>
              float_gt (?s x) ?T \<and> float_gt (?s x) (Finite (- 1)) \<and>
              (\<forall>y \<in> set pre. ?s y = NaN \<or> float_gt (?s x) (?s y)) \<and>
              (\<forall>y \<in> set post. \<not> float_gt (?s y) (?s x))"
    then obtain pre x post where d: "db = pre @ x # post"
      and r: "match_loop nd q db (None, Finite (- 1)) = Inr (Some (name x), ?s x)"
      and gt: "float_gt (?s x) ?T"
      and pre: "\<forall>y \<in> set pre. ?s y = NaN \<or> float_gt (?s x) (?s y)"
      and post: "\<forall>y \<in> set post. \<not> float_gt (?s y) (?s x)"
      by blast
    from d have xin: "x \<in> set db" by simp
    then have some: "\<exists>kf \<in> set db. float_gt (?s kf) ?T"
      using gt by blast
    have before: "\<forall>y \<in> set pre. \<not> float_gt (?s y) (?s x) \<and> ?s y \<noteq> ?s x"
    proof
      fix y assume "y \<in> set pre"
      with pre have "?s y = NaN \<or> float_gt (?s x) (?s y)" by blast
      then show "\<not> float_gt (?s y) (?s x) \<and> ?s y \<noteq> ?s x"
      proof
        assume nan: "?s y = NaN"
        from gt have "?s x \<noteq> NaN"
          using float_gt_NaN(2) by metis
        with nan show ?thesis
          by (simp add: float_gt_NaN)
      next
        assume less: "float_gt (?s x) (?s y)"
        then have "\<not> float_gt (?s y) (?s x)"
          using float_gt_trans float_gt_irrefl by blast
        moreover from less have "?s y \<noteq> ?s x"
          using float_gt_irrefl by metis
        ultimately show ?thesis by simp
      qed
    qed
    have mx: "\<forall>y \<in> set db. \<not> float_gt (?s y) (?s x)"
      using d before post float_gt_irrefl by auto
    from names xin have "name x \<noteq> []" by blast
    with r ne have res: "best_match nd q db = Inr (name x)"
      by (simp add: best_match_def truthy_def)
    have "\<exists>pre x post. db = pre @ x # post \<and> best_match nd q db = Inr (name x) \<and>
               float_gt (?s x) ?T \<and> (\<forall>y \<in> set db. \<not> float_gt (?s y) (?s x)) \<and>
               (\<forall>y \<in> set pre. ?s y \<noteq> ?s x)"
      using d res gt mx before by (intro exI [of _ pre] exI [of _ x] exI [of _ post]) simp
    with some show ?thesis by simp
  qed
qed

lemma best_match_example_first_of_tie:
  "best_match exact_dot [1, 0] example_db = Inr ''Bob''"
  by code_simp

lemma best_match_example_at_threshold:
  "best_match exact_dot [1, 0] [\<lparr>name = ''Alice'', embedding = [1 / 2, 3 / 4]\<rparr>] = Inr ''Unknown''"
  by code_simp

lemma example_db_similarities:
  "map (\<lambda>kf. exact_dot [1, 0] (embedding kf)) example_db = [Finite (1 / 2), Finite (3 / 4), Finite (3 / 4)]"
  "map (\<lambda>kf. exact_dot [1 / 2, 0] (embedding kf)) example_db =
     [Finite (1 / 4), Finite (3 / 8), Finite (3 / 8)]"
  by (simp_all add: example_db_def exact_dot_def)

theorem best_match_max_above_threshold_witness:
  "list_all (\<lambda>kf. name kf \<noteq> [] \<and> length (embedding kf) = length [1, 0 :: real]) example_db \<and>
   example_db \<noteq> [] \<and>
   map (\<lambda>kf. exact_dot [1, 0] (embedding kf)) example_db =
     [Finite (1 / 2), Finite (3 / 4), Finite (3 / 4)] \<and>
   best_match exact_dot [1, 0] example_db = Inr ''Bob'' \<and>
   (\<exists>pre x post. example_db = pre @ x # post \<and>
      best_match exact_dot [1, 0] example_db = Inr (name x) \<and>
      float_gt (exact_dot [1, 0] (embedding x)) (Finite SIMILARITY_THRESHOLD) \<and>
      (\<forall>y \<in> set example_db. \<not> float_gt (exact_dot [1, 0] (embedding y)) (exact_dot [1, 0] (embedding x))) \<and>
      (\<forall>y \<in> set pre. exact_dot [1, 0] (embedding y) \<noteq> exact_dot [1, 0] (embedding x))) \<and>
   map (\<lambda>kf. exact_dot [1 / 2, 0] (embedding kf)) example_db =
     [Finite (1 / 4), Finite (3 / 8), Finite (3 / 8)] \<and>
   best_match exact_dot [1 / 2, 0] example_db = Inr ''Unknown''"
proof -
  have names: "\<forall>kf \<in> set example_db. name kf \<noteq> []"
    by (simp add: example_db_def)
  have len: "\<forall>kf \<in> set example_db. length (embedding kf) = length [1, 0 :: real]"
    by (simp add: example_db_def)
  have len': "\<forall>kf \<in> set example_db. length (embedding kf) = length [1 / 2, 0 :: real]"
    by (simp add: example_db_def)
  have ne: "example_db \<noteq> []"
    by (simp add: example_db_def)
  have high: "\<exists>kf \<in> set example_db. float_gt (exact_dot [1, 0] (embedding kf)) (Finite SIMILARITY_THRESHOLD)"
    by (simp add: example_db_def exact_dot_def SIMILARITY_THRESHOLD_def)
  have low: "\<not> (\<exists>kf \<in> set example_db.
      float_gt (exact_dot [1 / 2, 0] (embedding kf)) (Finite SIMILARITY_THRESHOLD))"
    by (simp add: example_db_def exact_dot_def SIMILARITY_THRESHOLD_def)
  from best_match_max_above_threshold [OF names len, of exact_dot] ne high
  have first: "\<exists>pre x post. example_db = pre @ x # post \<and>
      best_match exact_dot [1, 0] example_db = Inr (name x) \<and>
      float_gt (exact_dot [1, 0] (embedding x)) (Finite SIMILARITY_THRESHOLD) \<and>
      (\<forall>y \<in> set example_db. \<not> float_gt (exact_dot [1, 0] (embedding y)) (exact_dot [1, 0] (embedding x))) \<and>
      (\<forall>y \<in> set pre. exact_dot [1, 0] (embedding y) \<noteq> exact_dot [1, 0] (embedding x))"
    by simp
  from best_match_max_above_threshold [OF names len', of exact_dot] ne low
  have second: "best_match exact_dot [1 / 2, 0] example_db = Inr ''Unknown''"
    by simp
  from first second names len ne show ?thesis
    by (simp add: list_all_iff example_db_similarities best_match_example_first_of_tie)
qed

text \<open>
  The claim as stated fails on a store that \<open>load_known_faces\<close> can return. An entry of
  the empty name whose similarity 1 exceeds the threshold is the maximum, and the matcher
  returns \<open>Unknown\<close>; on an entry whose embedding has another length than the query the
  matcher returns nothing: \<open>np.dot\<close> raises \<open>ValueError\<close>.
\<close>

theorem best_match_empty_name_counterexample:
  "exact_dot [1, 0] (embedding (hd unnamed_db)) = Finite 1 \<and>
   float_gt (Finite 1) (Finite SIMILARITY_THRESHOLD) \<and>
   name (hd unnamed_db) = [] \<and>
   best_match exact_dot [1, 0] unnamed_db = Inr ''Unknown'' \<and>
   best_match exact_dot [1, 0] longer_db = Inl ValueError"
  by code_simp
section \<open>Properties of the zoomed region and the detection block\<close>

lemma get_zoomed_region_None_iff:
  "get_zoomed_region rs fa box target = None \<longleftrightarrow>
     (fa = None \<or> box = None \<or>
      (\<exists>x1 y1 x2 y2. box = Some (x1, y1, x2, y2) \<and> (x2 - x1 \<le> 0 \<or> y2 - y1 \<le> 0)))"
  by (auto simp: get_zoomed_region_def Let_def split: option.splits prod.splits)

lemma get_zoomed_region_Some:
  assumes "0 < x2 - x1" "0 < y2 - y1"
  shows "get_zoomed_region rs (Some fr) (Some (x1, y1, x2, y2)) target =
     Some (if image_size (padded_crop fr (x1, y1, x2, y2)) = 0 then black_image fr target
           else case rs (padded_crop fr (x1, y1, x2, y2)) target of
                  None \<Rightarrow> black_image fr target | Some z \<Rightarrow> z)"
  using assms by (simp add: get_zoomed_region_def Let_def split: option.splits)

lemma black_image_shape:
  "cols (black_image fr target) = fst target" "rows (black_image fr target) = snd target"
  by (simp_all add: black_image_def np_zeros_def)

lemma zoom_logic_before_end:
  assumes "zoom_active s" "now < zoom_return_time s"
    and "current_processing_bbox_for_zoom s = Some (x1, y1, x2, y2)"
  shows "fst (zoom_logic rs fr now (s, d)) =
     (if 0 < x2 - x1 \<and> 0 < y2 - y1 then s
      else s\<lparr>zoom_active := False, current_processing_bbox_for_zoom := None,
             name_to_greet_after_zoom := None\<rparr>)"
proof (cases "0 < x2 - x1 \<and> 0 < y2 - y1")
  case True
  then show ?thesis
    using assms by (simp add: zoom_logic_def get_zoomed_region_Some)
next
  case False
  then have "get_zoomed_region rs (Some fr) (Some (x1, y1, x2, y2)) (cols fr, rows fr) = None"
    by (subst get_zoomed_region_None_iff) auto
  with False assms show ?thesis
    by (auto simp: zoom_logic_def)
qed

text \<open>
  C10. \<open>get_zoomed_region\<close> returns \<open>None\<close> exactly when the frame is \<open>None\<close>, the box is
  \<open>None\<close>, or the box has a width or height that is not positive. For a frame and a box
  of positive width and height it returns an image: the all-black image of the target
  size when the cropped slice is empty or the resize raises, and an image of the target
  size in every case, given that a successful resize returns an image of the size it was
  asked for. In the loop, a session that has not reached its end is forced back to idle
  by the zoom block exactly when its box has a width or height that is not positive.
\<close>

theorem get_zoomed_region_none_only_degenerate:
  "(get_zoomed_region rs fa box target = None \<longleftrightarrow>
      (fa = None \<or> box = None \<or>
       (\<exists>a b c d. box = Some (a, b, c, d) \<and> (c - a \<le> 0 \<or> d - b \<le> 0)))) \<and>
   (0 < xb - xa \<and> 0 < yb - ya \<longrightarrow>
      (\<exists>img. get_zoomed_region rs (Some fr) (Some (xa, ya, xb, yb)) target = Some img \<and>
         (image_size (padded_crop fr (xa, ya, xb, yb)) = 0 \<or>
          rs (padded_crop fr (xa, ya, xb, yb)) target = None \<longrightarrow>
            img = black_image fr target) \<and>
         ((\<forall>i sz z. rs i sz = Some z \<longrightarrow> cols z = fst sz \<and> rows z = snd sz) \<longrightarrow>
            cols img = fst target \<and> rows img = snd target))) \<and>
   (zoom_active s \<and> now < zoom_return_time s \<and>
    current_processing_bbox_for_zoom s = Some (xa, ya, xb, yb) \<longrightarrow>
      (zoom_active (fst (zoom_logic rs fr now (s, shown))) \<longleftrightarrow> 0 < xb - xa \<and> 0 < yb - ya))"
proof (intro conjI impI)
  show "get_zoomed_region rs fa box target = None \<longleftrightarrow>
      (fa = None \<or> box = None \<or>
       (\<exists>a b c d. box = Some (a, b, c, d) \<and> (c - a \<le> 0 \<or> d - b \<le> 0)))"
    by (rule get_zoomed_region_None_iff)
next
  assume pos: "0 < xb - xa \<and> 0 < yb - ya"
  let ?crop = "padded_crop fr (xa, ya, xb, yb)"
  let ?img = "if image_size ?crop = 0 then black_image fr target
              else case rs ?crop target of None \<Rightarrow> black_image fr target | Some z \<Rightarrow> z"
  have res: "get_zoomed_region rs (Some fr) (Some (xa, ya, xb, yb)) target = Some ?img"
    using pos by (simp add: get_zoomed_region_Some)
  have fallback: "image_size ?crop = 0 \<or> rs ?crop target = None \<longrightarrow> ?img = black_image fr target"
    by auto
  have shape: "(\<forall>i sz z. rs i sz = Some z \<longrightarrow> cols z = fst sz \<and> rows z = snd sz) \<longrightarrow>
      cols ?img = fst target \<and> rows ?img = snd target"
    by (cases target) (auto simp: black_image_shape split: option.splits)
  from res fallback shape
  show "\<exists>img. get_zoomed_region rs (Some fr) (Some (xa, ya, xb, yb)) target = Some img \<and>
         (image_size ?crop = 0 \<or> rs ?crop target = None \<longrightarrow> img = black_image fr target) \<and>
         ((\<forall>i sz z. rs i sz = Some z \<longrightarrow> cols z = fst sz \<and> rows z = snd sz) \<longrightarrow>
            cols img = fst target \<and> rows img = snd target)"
    by (intro exI [of _ ?img] conjI)
next
  assume "zoom_active s \<and> now < zoom_return_time s \<and>
    current_processing_bbox_for_zoom s = Some (xa, ya, xb, yb)"
  then show "zoom_active (fst (zoom_logic rs fr now (s, shown))) \<longleftrightarrow> 0 < xb - xa \<and> 0 < yb - ya"
    by (simp add: zoom_logic_before_end)
qed

lemma nearest_resize_shape:
  "\<forall>i sz z. nearest_resize i sz = Some z \<longrightarrow> cols z = fst sz \<and> rows z = snd sz"
  by (auto simp: nearest_resize_def split: prod.splits if_splits)

lemma padded_crop_example_inside:
  "image_size (padded_crop example_frame (40, 40, 60, 60)) = 3072"
  by code_simp

lemma padded_crop_example_right_of_frame:
  "image_size (padded_crop example_frame (120, 10, 140, 30)) = 0"
  by code_simp

lemma padded_crop_example_left_of_frame:
  "rows (padded_crop example_frame (- 50, 10, - 20, 30)) = 32 \<and>
   cols (padded_crop example_frame (- 50, 10, - 20, 30)) = 89"
  by code_simp

theorem get_zoomed_region_none_only_degenerate_witness:
  "(\<exists>img. get_zoomed_region nearest_resize (Some example_frame) (Some (40, 40, 60, 60)) (100, 100)
            = Some img \<and> cols img = 100 \<and> rows img = 100) \<and>
   get_zoomed_region nearest_resize (Some example_frame) (Some (120, 10, 140, 30)) (100, 100)
     = Some (black_image example_frame (100, 100)) \<and>
   get_zoomed_region nearest_resize (Some example_frame) (Some (40, 40, 60, 60)) (0, 100)
     = Some (black_image example_frame (0, 100)) \<and>
   zoom_active (fst (zoom_logic nearest_resize example_frame 11 (example_session, example_frame)))"
proof -
  note inside = get_zoomed_region_none_only_degenerate
      [where rs = nearest_resize and fa = None and box = None and target = "(100, 100)"
        and xa = 40 and ya = 40 and xb = 60 and yb = 60 and fr = example_frame
        and s = example_session and now = 11 and shown = example_frame]
  note outside = get_zoomed_region_none_only_degenerate
      [where rs = nearest_resize and fa = None and box = None and target = "(100, 100)"
        and xa = 120 and ya = 10 and xb = 140 and yb = 30 and fr = example_frame
        and s = example_session and now = 11 and shown = example_frame]
  have a: "\<exists>img. get_zoomed_region nearest_resize (Some example_frame) (Some (40, 40, 60, 60)) (100, 100)
            = Some img \<and> cols img = 100 \<and> rows img = 100"
    using inside nearest_resize_shape by simp blast
  have b: "get_zoomed_region nearest_resize (Some example_frame) (Some (120, 10, 140, 30)) (100, 100)
     = Some (black_image example_frame (100, 100))"
    using outside padded_crop_example_right_of_frame by auto
  have c: "zoom_active (fst (zoom_logic nearest_resize example_frame 11 (example_session, example_frame)))"
    using inside by (simp add: example_session_def initial_state_def)
  have no_size: "nearest_resize (padded_crop example_frame (40, 40, 60, 60)) (0, 100) = None"
    by (simp add: nearest_resize_def)
  have d: "get_zoomed_region nearest_resize (Some example_frame) (Some (40, 40, 60, 60)) (0, 100)
     = Some (black_image example_frame (0, 100))"
    using get_zoomed_region_none_only_degenerate
      [where rs = nearest_resize and fa = None and box = None and target = "(0, 100)"
        and xa = 40 and ya = 40 and xb = 60 and yb = 60 and fr = example_frame
        and s = example_session and now = 11 and shown = example_frame] no_size
    by auto
  from a b c d show ?thesis by blast
qed

section \<open>Properties of the recognition loop\<close>

lemma best_match_nonempty: "best_match nd q db = Inr nm \<Longrightarrow> nm \<noteq> []"
  by (auto simp: best_match_def truthy_def split: if_splits sum.splits prod.splits option.splits)

lemma process_frame_name_nonempty:
  "process_frame nd db faces w h = Inr (Some nm, b) \<Longrightarrow> nm \<noteq> []"
  by (auto simp: process_frame_def Let_def dest: best_match_nonempty
      split: if_splits sum.splits option.splits)

text \<open>
  C3. When the detection block runs and \<open>process_frame\<close> yields a recognized name (a name
  other than \<open>Unknown\<close>) with its box, the pending greet target becomes that name if the
  name is not in \<open>last_greeted_time\<close> or more than \<open>GREETING_COOLDOWN_SECONDS\<close> have passed
  since its entry, and becomes \<open>None\<close> otherwise; in both cases the zoom session is
  active afterwards and ends at now + \<open>ZOOM_DURATION_SECONDS\<close>.
\<close>

theorem detection_records_pending_greet:
  assumes idle: "\<not> zoom_active s"
    and due: "now - last_detection_run_time s > DETECTION_INTERVAL_SECONDS"
    and rec: "process_frame nd db faces (cols fr) (rows fr) = Inr (Some nm, Some b)"
    and known: "nm \<noteq> ''Unknown''"
  shows "\<exists>s' shown'. detection_logic rs nd db fr now faces (s, shown) = Inr (s', shown') \<and>
     name_to_greet_after_zoom s' =
       (if nm \<notin> dom (last_greeted_time s) \<or>
           now - the (last_greeted_time s nm) > GREETING_COOLDOWN_SECONDS
        then Some nm else None) \<and>
     zoom_active s' \<and> zoom_return_time s' = now + ZOOM_DURATION_SECONDS \<and>
     current_processing_bbox_for_zoom s' = Some b"
proof -
  from rec have ne: "nm \<noteq> []" by (rule process_frame_name_nonempty)
  show ?thesis
    using idle due rec known ne
    by (auto simp: detection_logic_def Let_def truthy_def split: option.splits)
qed

lemma process_frame_example_bob:
  "process_frame exact_dot example_db [bob_face] 100 100 = Inr (Some ''Bob'', Some (40, 40, 60, 60))"
  by code_simp

lemma example_frame_shape:
  "rows example_frame = 100" "cols example_frame = 100" "channels example_frame = Some 3"
  by (simp_all add: example_frame_def)

theorem detection_records_pending_greet_witness:
  "(\<exists>s' shown'. detection_logic nearest_resize exact_dot example_db example_frame 10 [bob_face]
        (initial_state, example_frame) = Inr (s', shown') \<and>
      name_to_greet_after_zoom s' = Some ''Bob'' \<and> zoom_active s' \<and>
      zoom_return_time s' = 10 + ZOOM_DURATION_SECONDS) \<and>
   (\<exists>s' shown'. detection_logic nearest_resize exact_dot example_db example_frame 10 [bob_face]
        (initial_state\<lparr>last_greeted_time := [''Bob'' \<mapsto> 8]\<rparr>, example_frame) = Inr (s', shown') \<and>
      name_to_greet_after_zoom s' = None \<and> zoom_active s' \<and>
      zoom_return_time s' = 10 + ZOOM_DURATION_SECONDS)"
proof -
  have rec: "process_frame exact_dot example_db [bob_face] (cols example_frame) (rows example_frame) =
      Inr (Some ''Bob'', Some (40, 40, 60, 60))"
    by (simp add: example_frame_shape process_frame_example_bob)
  have known: "''Bob'' \<noteq> ''Unknown''" by simp
  have first: "\<exists>s' shown'. detection_logic nearest_resize exact_dot example_db example_frame 10 [bob_face]
        (initial_state, example_frame) = Inr (s', shown') \<and>
      name_to_greet_after_zoom s' = Some ''Bob'' \<and> zoom_active s' \<and>
      zoom_return_time s' = 10 + ZOOM_DURATION_SECONDS"
    using detection_records_pending_greet [where s = initial_state and now = 10
        and rs = nearest_resize and shown = example_frame, OF _ _ rec known]
    by (auto simp: initial_state_def DETECTION_INTERVAL_SECONDS_def)
  have second: "\<exists>s' shown'. detection_logic nearest_resize exact_dot example_db example_frame 10 [bob_face]
        (initial_state\<lparr>last_greeted_time := [''Bob'' \<mapsto> 8]\<rparr>, example_frame) = Inr (s', shown') \<and>
      name_to_greet_after_zoom s' = None \<and> zoom_active s' \<and>
      zoom_return_time s' = 10 + ZOOM_DURATION_SECONDS"
    using detection_records_pending_greet
        [where s = "initial_state\<lparr>last_greeted_time := [''Bob'' \<mapsto> 8]\<rparr>" and now = 10
        and rs = nearest_resize and shown = example_frame, OF _ _ rec known]
    by (auto simp: initial_state_def DETECTION_INTERVAL_SECONDS_def GREETING_COOLDOWN_SECONDS_def)
  from first second show ?thesis by blast
qed

section \<open>The zoom session\<close>

lemma zoom_logic_at_end:
  assumes "zoom_active s" "zoom_return_time s \<le> now"
  shows "fst (zoom_logic rs fr now (s, shown)) =
     s\<lparr>zoom_active := False, current_processing_bbox_for_zoom := None,
       name_to_greet_after_zoom := None,
       tts_speak_calls := tts_speak_calls s @ map greeting_text (greeted_at_end s),
       last_greeted_time :=
         (case greeted_at_end s of [] \<Rightarrow> last_greeted_time s
          | nm # rest \<Rightarrow> (last_greeted_time s)(nm \<mapsto> now))\<rparr>"
  using assms
  by (cases "name_to_greet_after_zoom s")
     (auto simp: zoom_logic_def Let_def truthy_def greeted_at_end_def)

lemma greeted_at_end_one:
  "length (greeted_at_end s) \<le> 1 \<and> set (greeted_at_end s) \<subseteq> set_option (name_to_greet_after_zoom s)"
  by (auto simp: greeted_at_end_def split: option.splits)

lemma detection_logic_keeps_greetings:
  "detection_logic rs nd db fr now faces (s, shown) = Inr (s', shown') \<Longrightarrow>
     tts_speak_calls s' = tts_speak_calls s \<and> last_greeted_time s' = last_greeted_time s"
  by (auto simp: detection_logic_def Let_def split: if_splits sum.splits option.splits prod.splits)

lemma detection_logic_while_zoomed:
  "zoom_active s \<Longrightarrow> detection_logic rs nd db fr now faces (s, shown) = Inr (s, shown)"
  by (simp add: detection_logic_def)

lemma loop_body_in_session:
  assumes act: "zoom_active s"
    and box: "current_processing_bbox_for_zoom s = Some (xa, ya, xb, yb)"
    and pos: "xa < xb" "ya < yb"
    and early: "t_time t < zoom_return_time s"
    and step: "loop_body rs nd db s t = (c, s', shown)"
  shows "zoom_active s' \<and> zoom_return_time s' = zoom_return_time s \<and>
      current_processing_bbox_for_zoom s' = current_processing_bbox_for_zoom s \<and>
      name_to_greet_after_zoom s' = name_to_greet_after_zoom s \<and>
      tts_speak_calls s' = tts_speak_calls s \<and>
      last_greeted_time s' = last_greeted_time s"
proof (cases "t_frame t")
  case None
  then show ?thesis
    using act step by (auto simp: loop_body_def)
next
  case (Some fr)
  have z: "fst (zoom_logic rs fr (t_time t) (s, fr)) = s"
    using zoom_logic_before_end [OF act early box, of rs fr fr] pos by simp
  obtain sh where zs: "zoom_logic rs fr (t_time t) (s, fr) = (s, sh)"
    using z by (cases "zoom_logic rs fr (t_time t) (s, fr)") simp
  show ?thesis
    using Some act zs step
    by (auto simp: loop_body_def Let_def detection_logic_while_zoomed split: if_splits)
qed

lemma main_loop_in_session:
  assumes act: "zoom_active s"
    and box: "current_processing_bbox_for_zoom s = Some (xa, ya, xb, yb)"
    and pos: "xa < xb" "ya < yb"
    and early: "\<forall>t \<in> set ts. t_time t < zoom_return_time s"
  shows "zoom_active (main_loop rs nd db s ts) \<and>
      zoom_return_time (main_loop rs nd db s ts) = zoom_return_time s \<and>
      name_to_greet_after_zoom (main_loop rs nd db s ts) = name_to_greet_after_zoom s \<and>
      tts_speak_calls (main_loop rs nd db s ts) = tts_speak_calls s \<and>
      last_greeted_time (main_loop rs nd db s ts) = last_greeted_time s"
  using act box early
proof (induction ts arbitrary: s)
  case Nil
  then show ?case by simp
next
  case (Cons t ts)
  obtain c s' shown where step: "loop_body rs nd db s t = (c, s', shown)"
    by (cases "loop_body rs nd db s t") auto
  from Cons.prems have early_t: "t_time t < zoom_return_time s" by simp
  note keep = loop_body_in_session [OF Cons.prems(1) Cons.prems(2) pos early_t step]
  show ?case
  proof (cases c)
    case Continue
    from keep Cons.prems have "\<forall>t \<in> set ts. t_time t < zoom_return_time s'"
      and "zoom_active s'" and "current_processing_bbox_for_zoom s' = Some (xa, ya, xb, yb)"
      by simp_all
    from Cons.IH [OF this(2) this(3) this(1)] keep step Continue show ?thesis
      by simp
  next
    case Break
    with keep step show ?thesis by simp
  next
    case (Raise e)
    with keep step show ?thesis by simp
  qed
qed

lemma loop_body_at_end:
  assumes act: "zoom_active s" and late: "zoom_return_time s \<le> t_time t"
    and fr: "t_frame t = Some fr"
    and step: "loop_body rs nd db s t = (c, s', shown)"
  shows "tts_speak_calls s' = tts_speak_calls s @ map greeting_text (greeted_at_end s) \<and>
     last_greeted_time s' =
       (case greeted_at_end s of [] \<Rightarrow> last_greeted_time s
        | nm # rest \<Rightarrow> (last_greeted_time s)(nm \<mapsto> t_time t))"
proof -
  obtain z sh where zs: "zoom_logic rs fr (t_time t) (s, fr) = (z, sh)"
    by (cases "zoom_logic rs fr (t_time t) (s, fr)") auto
  from zoom_logic_at_end [OF act late, of rs fr fr] zs
  have z: "tts_speak_calls z = tts_speak_calls s @ map greeting_text (greeted_at_end s)"
    "last_greeted_time z =
       (case greeted_at_end s of [] \<Rightarrow> last_greeted_time s
        | nm # rest \<Rightarrow> (last_greeted_time s)(nm \<mapsto> t_time t))"
    by simp_all
  show ?thesis
  proof (cases "detection_logic rs nd db fr (t_time t) (t_detect t (USE_LOW_LIGHT_ENHANCEMENT s)) (z, sh)")
    case (Inl e)
    with step fr zs z show ?thesis
      by (auto simp: loop_body_def Let_def)
  next
    case (Inr r)
    obtain s2 sh2 where r: "r = (s2, sh2)" by (cases r) auto
    from detection_logic_keeps_greetings [OF Inr [unfolded r]] z
    have "tts_speak_calls s2 = tts_speak_calls s @ map greeting_text (greeted_at_end s)"
      "last_greeted_time s2 =
       (case greeted_at_end s of [] \<Rightarrow> last_greeted_time s
        | nm # rest \<Rightarrow> (last_greeted_time s)(nm \<mapsto> t_time t))"
      by simp_all
    with step fr zs Inr r show ?thesis
      by (auto simp: loop_body_def Let_def split: if_splits)
  qed
qed

text \<open>
  C2, amended. A zoom session on a box of positive width and height reports
  \<open>ZOOM_ACTIVE\<close> through all iterations whose time lies before its end time, however
  many they are, with its end time, pending greet target, spoken greetings and
  \<open>last_greeted_time\<close> unchanged. At an iteration whose time has reached the end time the
  zoom block makes the session idle and clears the pending target; it greets at most
  one name, the pending target, and stamps \<open>last_greeted_time\<close> of that name with the
  time of the iteration; the rest of the iteration adds no greeting.
\<close>

theorem zoom_session_lifecycle:
  assumes act: "zoom_active s"
    and box: "current_processing_bbox_for_zoom s = Some (xa, ya, xb, yb)"
    and pos: "xa < xb" "ya < yb"
  shows
   "((\<forall>t \<in> set ts. t_time t < zoom_return_time s) \<longrightarrow>
       zoom_active (main_loop rs nd db s ts) \<and>
       zoom_return_time (main_loop rs nd db s ts) = zoom_return_time s \<and>
       name_to_greet_after_zoom (main_loop rs nd db s ts) = name_to_greet_after_zoom s \<and>
       tts_speak_calls (main_loop rs nd db s ts) = tts_speak_calls s \<and>
       last_greeted_time (main_loop rs nd db s ts) = last_greeted_time s) \<and>
    (zoom_return_time s \<le> now \<longrightarrow>
       \<not> zoom_active (fst (zoom_logic rs fr now (s, shown))) \<and>
       name_to_greet_after_zoom (fst (zoom_logic rs fr now (s, shown))) = None \<and>
       tts_speak_calls (fst (zoom_logic rs fr now (s, shown))) =
         tts_speak_calls s @ map greeting_text (greeted_at_end s) \<and>
       length (greeted_at_end s) \<le> 1 \<and>
       set (greeted_at_end s) \<subseteq> set_option (name_to_greet_after_zoom s) \<and>
       last_greeted_time (fst (zoom_logic rs fr now (s, shown))) =
         (case greeted_at_end s of [] \<Rightarrow> last_greeted_time s
          | nm # rest \<Rightarrow> (last_greeted_time s)(nm \<mapsto> now))) \<and>
    (zoom_return_time s \<le> t_time t \<and> t_frame t = Some fr \<and>
     loop_body rs nd db s t = (c, s', shown') \<longrightarrow>
       tts_speak_calls s' = tts_speak_calls s @ map greeting_text (greeted_at_end s) \<and>
       last_greeted_time s' =
         (case greeted_at_end s of [] \<Rightarrow> last_greeted_time s
          | nm # rest \<Rightarrow> (last_greeted_time s)(nm \<mapsto> t_time t)))"
proof (intro conjI impI)
  assume early: "\<forall>t \<in> set ts. t_time t < zoom_return_time s"
  note run = main_loop_in_session [OF act box pos early, of rs nd db]
  from run show "zoom_active (main_loop rs nd db s ts)" by simp
  from run show "zoom_return_time (main_loop rs nd db s ts) = zoom_return_time s" by simp
  from run show "name_to_greet_after_zoom (main_loop rs nd db s ts) = name_to_greet_after_zoom s"
    by simp
  from run show "tts_speak_calls (main_loop rs nd db s ts) = tts_speak_calls s" by simp
  from run show "last_greeted_time (main_loop rs nd db s ts) = last_greeted_time s" by simp
next
  assume late: "zoom_return_time s \<le> now"
  note z = zoom_logic_at_end [OF act late, of rs fr shown]
  show "\<not> zoom_active (fst (zoom_logic rs fr now (s, shown)))" by (simp add: z)
  show "name_to_greet_after_zoom (fst (zoom_logic rs fr now (s, shown))) = None" by (simp add: z)
  show "tts_speak_calls (fst (zoom_logic rs fr now (s, shown))) =
         tts_speak_calls s @ map greeting_text (greeted_at_end s)" by (simp add: z)
  show "length (greeted_at_end s) \<le> 1" using greeted_at_end_one by blast
  show "set (greeted_at_end s) \<subseteq> set_option (name_to_greet_after_zoom s)"
    using greeted_at_end_one by blast
  show "last_greeted_time (fst (zoom_logic rs fr now (s, shown))) =
         (case greeted_at_end s of [] \<Rightarrow> last_greeted_time s
          | nm # rest \<Rightarrow> (last_greeted_time s)(nm \<mapsto> now))" by (simp add: z)
next
  assume a: "zoom_return_time s \<le> t_time t \<and> t_frame t = Some fr \<and>
     loop_body rs nd db s t = (c, s', shown')"
  then have late: "zoom_return_time s \<le> t_time t" and fr: "t_frame t = Some fr"
    and step: "loop_body rs nd db s t = (c, s', shown')" by simp_all
  note e = loop_body_at_end [OF act late fr step]
  from e show "tts_speak_calls s' = tts_speak_calls s @ map greeting_text (greeted_at_end s)"
    by simp
  from e show "last_greeted_time s' =
         (case greeted_at_end s of [] \<Rightarrow> last_greeted_time s
          | nm # rest \<Rightarrow> (last_greeted_time s)(nm \<mapsto> t_time t))" by simp
qed

lemma main_loop_example_enters_session:
  "zoom_active (main_loop nearest_resize exact_dot example_db initial_state [tick_at 10 [bob_face]]) \<and>
   zoom_return_time (main_loop nearest_resize exact_dot example_db initial_state [tick_at 10 [bob_face]])
     = 117 / 10 \<and>
   name_to_greet_after_zoom (main_loop nearest_resize exact_dot example_db initial_state [tick_at 10 [bob_face]])
     = Some ''Bob''"
  by code_simp

theorem zoom_session_lifecycle_witness:
  "zoom_active (main_loop nearest_resize exact_dot example_db example_session
      [tick_at (21 / 2) [bob_face], tick_at 11 []]) \<and>
   tts_speak_calls (main_loop nearest_resize exact_dot example_db example_session
      [tick_at (21 / 2) [bob_face], tick_at 11 []]) = [] \<and>
   \<not> zoom_active (fst (zoom_logic nearest_resize example_frame 12 (example_session, example_frame))) \<and>
   tts_speak_calls (fst (zoom_logic nearest_resize example_frame 12 (example_session, example_frame)))
     = [''Your friend Bob is in front of you.''] \<and>
   last_greeted_time (fst (zoom_logic nearest_resize example_frame 12 (example_session, example_frame)))
     ''Bob'' = Some 12 \<and>
   tts_speak_calls (fst (snd (loop_body nearest_resize exact_dot example_db example_session (tick_at 12 []))))
     = [''Your friend Bob is in front of you.'']"
proof -
  have act: "zoom_active example_session"
    and box: "current_processing_bbox_for_zoom example_session = Some (40, 40, 60, 60)"
    and ret: "zoom_return_time example_session = 117 / 10"
    and calls: "tts_speak_calls example_session = []"
    and greeted: "greeted_at_end example_session = [''Bob'']"
    by (simp_all add: example_session_def initial_state_def greeted_at_end_def)
  have early: "\<forall>t \<in> set [tick_at (21 / 2) [bob_face], tick_at 11 []].
      t_time t < zoom_return_time example_session"
    by (simp add: ret tick_at_def)
  have late: "zoom_return_time example_session \<le> 12"
    by (simp add: ret)
  from zoom_session_lifecycle [OF act box, where ts = "[tick_at (21 / 2) [bob_face], tick_at 11 []]"
      and now = 12 and rs = nearest_resize and nd = exact_dot and db = example_db
      and fr = example_frame
      and shown = example_frame and t = "tick_at 12 []"
      and c = "fst (loop_body nearest_resize exact_dot example_db example_session (tick_at 12 []))"
      and s' = "fst (snd (loop_body nearest_resize exact_dot example_db example_session (tick_at 12 [])))"
      and shown' = "snd (snd (loop_body nearest_resize exact_dot example_db example_session (tick_at 12 [])))"]
    early late calls greeted
  show ?thesis
    by (simp add: greeting_text_def tick_at_def ret)
qed

theorem zoom_session_degenerate_box_counterexample:
  "zoom_active (main_loop nearest_resize exact_dot example_db initial_state [tick_at 10 [thin_face]]) \<and>
   zoom_return_time (main_loop nearest_resize exact_dot example_db initial_state [tick_at 10 [thin_face]])
     = 10 + ZOOM_DURATION_SECONDS \<and>
   (10 :: real) \<le> 21 / 2 \<and> 21 / 2 < 10 + ZOOM_DURATION_SECONDS \<and>
   \<not> zoom_active (main_loop nearest_resize exact_dot example_db initial_state
        [tick_at 10 [thin_face], tick_at (21 / 2) []])"
  by code_simp

section \<open>The speech gate\<close>

lemma speak_task_dropped:
  "now - last_tts_call_time s < TTS_MIN_INTERVAL \<Longrightarrow> speak_task s text now r = s"
  by (simp add: speak_task_def)

lemma speak_task_invoked:
  "\<not> now - last_tts_call_time s < TTS_MIN_INTERVAL \<Longrightarrow>
     say_calls (speak_task s text now r) = say_calls s @ [text] \<and>
     last_tts_call_time (speak_task s text now r) =
       (case r of SayReturned finished \<Rightarrow> finished | SayRaised e \<Rightarrow> last_tts_call_time s)"
  by (simp add: speak_task_def split: say_result.splits)

text \<open>
  C7, amended. The interval is counted from the return of the last successful call of
  \<open>say\<close>, not
  from its start. A request whose task runs less than \<open>TTS_MIN_INTERVAL\<close> after
  \<open>last_tts_call_time\<close> is dropped and leaves no trace; any other request calls \<open>say\<close>.
  \<open>last_tts_call_time\<close> becomes the time read after \<open>say\<close> returned, and stays as it was
  when \<open>say\<close> raised. So after an invoked request whose call returned at time
  \<open>finished\<close>, the next request is dropped exactly when it runs less than
  \<open>TTS_MIN_INTERVAL\<close> after \<open>finished\<close>; after an invoked request whose call raised, the
  next request is judged against the old \<open>last_tts_call_time\<close>.
\<close>

theorem speak_gate_counts_from_return:
  "(now - last_tts_call_time s < TTS_MIN_INTERVAL \<longrightarrow> speak_task s msg now r = s) \<and>
   (TTS_MIN_INTERVAL \<le> now - last_tts_call_time s \<longrightarrow>
      say_calls (speak_task s msg now r) = say_calls s @ [msg] \<and>
      last_tts_call_time (speak_task s msg now r) =
        (case r of SayReturned finished \<Rightarrow> finished | SayRaised e \<Rightarrow> last_tts_call_time s)) \<and>
   (TTS_MIN_INTERVAL \<le> start - last_tts_call_time s \<longrightarrow>
      say_calls (speak_all s [(prev, start, SayReturned finished), (msg, now, r)]) =
        say_calls s @ [prev] @ (if now - finished < TTS_MIN_INTERVAL then [] else [msg]) \<and>
      say_calls (speak_all s [(prev, start, SayRaised e), (msg, now, r)]) =
        say_calls s @ [prev] @ (if now - last_tts_call_time s < TTS_MIN_INTERVAL then [] else [msg]))"
proof (intro conjI impI)
  assume "now - last_tts_call_time s < TTS_MIN_INTERVAL"
  then show "speak_task s msg now r = s" by (rule speak_task_dropped)
next
  assume "TTS_MIN_INTERVAL \<le> now - last_tts_call_time s"
  then have inv: "\<not> now - last_tts_call_time s < TTS_MIN_INTERVAL" by simp
  from speak_task_invoked [OF inv]
  show "say_calls (speak_task s msg now r) = say_calls s @ [msg]"
    and "last_tts_call_time (speak_task s msg now r) =
        (case r of SayReturned finished \<Rightarrow> finished | SayRaised e \<Rightarrow> last_tts_call_time s)"
    by simp_all
next
  assume "TTS_MIN_INTERVAL \<le> start - last_tts_call_time s"
  then have inv: "\<not> start - last_tts_call_time s < TTS_MIN_INTERVAL" by simp
  show "say_calls (speak_all s [(prev, start, SayReturned finished), (msg, now, r)]) =
        say_calls s @ [prev] @ (if now - finished < TTS_MIN_INTERVAL then [] else [msg])"
    using inv by (simp add: speak_task_def split: say_result.splits)
  show "say_calls (speak_all s [(prev, start, SayRaised e), (msg, now, r)]) =
        say_calls s @ [prev] @ (if now - last_tts_call_time s < TTS_MIN_INTERVAL then [] else [msg])"
    using inv by (simp add: speak_task_def split: say_result.splits)
qed

theorem speak_gate_counts_from_return_witness:
  "say_calls (speak_all tts_initial [(''a'', 100, SayReturned 102), (''b'', 103, SayReturned 105)])
     = [''a'', ''b''] \<and>
   say_calls (speak_all tts_initial [(''a'', 100, SayReturned 102), (''b'', 1024 / 10, SayReturned 105)])
     = [''a''] \<and>
   speak_task (tts_initial\<lparr>last_tts_call_time := 102\<rparr>) ''b'' (1024 / 10) (SayReturned 105)
     = tts_initial\<lparr>last_tts_call_time := 102\<rparr> \<and>
   say_calls (speak_task tts_initial ''a'' 100 (SayReturned 102)) = [''a''] \<and>
   last_tts_call_time (speak_task tts_initial ''a'' 100 (SayReturned 102)) = 102"
proof -
  have gate_open: "TTS_MIN_INTERVAL \<le> 100 - last_tts_call_time tts_initial"
    by (simp add: tts_initial_def TTS_MIN_INTERVAL_def)
  have a: "say_calls (speak_all tts_initial [(''a'', 100, SayReturned 102), (''b'', 103, SayReturned 105)])
     = [''a'', ''b'']"
    using speak_gate_counts_from_return [where s = tts_initial and start = 100 and finished = 102
        and now = 103 and prev = "''a''" and msg = "''b''" and r = "SayReturned 105"
        and e = OtherException] gate_open
    by (simp add: tts_initial_def TTS_MIN_INTERVAL_def)
  have b: "say_calls (speak_all tts_initial [(''a'', 100, SayReturned 102), (''b'', 1024 / 10, SayReturned 105)])
     = [''a'']"
    using speak_gate_counts_from_return [where s = tts_initial and start = 100 and finished = 102
        and now = "1024 / 10" and prev = "''a''" and msg = "''b''" and r = "SayReturned 105"
        and e = OtherException] gate_open
    by (simp add: tts_initial_def TTS_MIN_INTERVAL_def)
  have c: "speak_task (tts_initial\<lparr>last_tts_call_time := 102\<rparr>) ''b'' (1024 / 10) (SayReturned 105)
     = tts_initial\<lparr>last_tts_call_time := 102\<rparr>"
    using speak_gate_counts_from_return [where s = "tts_initial\<lparr>last_tts_call_time := 102\<rparr>"
        and now = "1024 / 10" and msg = "''b''" and r = "SayReturned 105" and start = 0
        and prev = "''a''" and finished = 0 and e = OtherException]
    by (simp add: TTS_MIN_INTERVAL_def)
  have d: "say_calls (speak_task tts_initial ''a'' 100 (SayReturned 102)) = [''a''] \<and>
   last_tts_call_time (speak_task tts_initial ''a'' 100 (SayReturned 102)) = 102"
    using speak_gate_counts_from_return [where s = tts_initial and now = 100 and msg = "''a''"
        and r = "SayReturned 102" and start = 0 and prev = "''a''" and finished = 0
        and e = OtherException] gate_open
    by (simp add: tts_initial_def)
  from a b c d show ?thesis by blast
qed

text \<open>
  The claim as stated fails in both directions. The first call of \<open>say\<close> starts at time
  100 and returns at 102; a request at 102.3, which is 2.3 seconds after that start, is
  dropped. And when the call of \<open>say\<close> that started at 100 raises, a request 0.1 seconds
  after that start is invoked.
\<close>

theorem speak_gate_from_start_counterexample:
  "(100 :: real) + TTS_MIN_INTERVAL \<le> 1023 / 10 \<and>
   say_calls (speak_all tts_initial [(''a'', 100, SayReturned 102), (''b'', 1023 / 10, SayReturned 104)])
     = [''a''] \<and>
   (1001 / 10 :: real) < 100 + TTS_MIN_INTERVAL \<and>
   say_calls (speak_all tts_initial
      [(''a'', 100, SayRaised OtherException), (''b'', 1001 / 10, SayReturned 102)])
     = [''a'', ''b'']"
  by (simp add: speak_task_def tts_initial_def TTS_MIN_INTERVAL_def)

section \<open>Properties of the load\<close>

lemma map_filter_Cons:
  "List.map_filter g (x # xs) = (case g x of None \<Rightarrow> List.map_filter g xs | Some y \<Rightarrow> y # List.map_filter g xs)"
  by (simp add: List.map_filter_def split: option.splits)

lemma map_filter_Nil: "List.map_filter g [] = []"
  by (simp add: List.map_filter_def)

lemma load_items_all_convert:
  "all_convert np items \<Longrightarrow>
     load_items np items (valid, out) =
       (Inr (valid @ spec_valid_entries np items), out @ spec_warnings items)"
proof (induction items arbitrary: valid out)
  case Nil
  then show ?case
    by (simp add: spec_valid_entries_def spec_warnings_def map_filter_Nil)
next
  case (Cons item items)
  from Cons.prems have rest: "all_convert np items"
    and here: "has_both_fields item \<longrightarrow> \<not> isl (np (the (item_field ''embedding'' item)))"
    by (simp_all add: all_convert_def)
  note IH = Cons.IH [OF rest]
  show ?case
  proof (cases item)
    case (PyDict d)
    show ?thesis
    proof (cases "map_of d ''name''")
      case None
      then show ?thesis
        using PyDict IH
        by (simp add: spec_valid_entries_def spec_warnings_def map_filter_Cons spec_entry_def
            spec_warning_def has_both_fields_def item_field_def)
    next
      case (Some nm)
      note nm = this
      show ?thesis
      proof (cases "map_of d ''embedding''")
        case None
        then show ?thesis
          using PyDict nm IH
          by (simp add: spec_valid_entries_def spec_warnings_def map_filter_Cons spec_entry_def
              spec_warning_def has_both_fields_def item_field_def)
      next
        case (Some emb)
        with here PyDict nm obtain arr where arr: "np emb = Inr arr"
          by (cases "np emb") (auto simp: has_both_fields_def item_field_def)
        show ?thesis
          using PyDict nm Some arr IH
          by (cases nm)
             (simp_all add: spec_valid_entries_def spec_warnings_def map_filter_Cons spec_entry_def
              spec_warning_def has_both_fields_def item_field_def string_name_def)
      qed
    qed
  qed (use IH in \<open>simp_all add: spec_valid_entries_def spec_warnings_def map_filter_Cons
        spec_entry_def spec_warning_def has_both_fields_def item_field_def\<close>)
qed

text \<open>
  C4, amended. \<open>load_known_faces\<close> returns a list on every path: an exception that the
  body of its \<open>try\<close> raises is caught by one of the two handlers, which prints a message.
  On a missing, unreadable or corrupt file it returns the empty list; on a pickle that
  is no list it returns the empty list with a warning. On a list in which every embedding
  of an item with both fields converts to an array, it returns, in order, the entries of
  the items that have both fields and a string name, and it prints one warning for each
  other item.
\<close>

theorem load_known_faces_result:
  "(load_attempt np f = (Inl e, out) \<longrightarrow>
      snd (load_known_faces np f) =
        out @ [if e = FileNotFoundError \<or> e = EOFError \<or> e = UnpicklingError
               then CouldNotLoad e else UnexpectedError e]) \<and>
   (read_pickle f = Inl e \<longrightarrow>
      load_known_faces np f =
        ([], [if e = FileNotFoundError \<or> e = EOFError \<or> e = UnpicklingError
              then CouldNotLoad e else UnexpectedError e])) \<and>
   (f = Pickled v \<and> (\<forall>items. v \<noteq> PyList items) \<longrightarrow> load_known_faces np f = ([], [NotAList])) \<and>
   (all_convert np items \<longrightarrow>
      load_known_faces np (Pickled (PyList items)) =
        (spec_valid_entries np items,
         spec_warnings items @ [LoadedKnownFaces (length (spec_valid_entries np items))]))"
proof (intro conjI impI)
  assume "load_attempt np f = (Inl e, out)"
  then show "snd (load_known_faces np f) =
        out @ [if e = FileNotFoundError \<or> e = EOFError \<or> e = UnpicklingError
               then CouldNotLoad e else UnexpectedError e]"
    by (simp add: load_known_faces_def)
next
  assume "read_pickle f = Inl e"
  then show "load_known_faces np f =
        ([], [if e = FileNotFoundError \<or> e = EOFError \<or> e = UnpicklingError
              then CouldNotLoad e else UnexpectedError e])"
    by (simp add: load_known_faces_def load_attempt_def)
next
  assume "f = Pickled v \<and> (\<forall>items. v \<noteq> PyList items)"
  then show "load_known_faces np f = ([], [NotAList])"
    by (cases v) (simp_all add: load_known_faces_def load_attempt_def read_pickle_def)
next
  assume "all_convert np items"
  from load_items_all_convert [OF this, of "[]" "[]"]
  show "load_known_faces np (Pickled (PyList items)) =
        (spec_valid_entries np items,
         spec_warnings items @ [LoadedKnownFaces (length (spec_valid_entries np items))])"
    by (simp add: load_known_faces_def load_attempt_def read_pickle_def)
qed

lemma all_convert_example:
  "all_convert np_array_float32 [alice_item, nameless_item, PyInt 3]"
  by code_simp

lemma spec_valid_entries_example:
  "spec_valid_entries np_array_float32 [alice_item, nameless_item, PyInt 3] =
     [\<lparr>name = ''Alice'', embedding = [1 / 2, 3 / 4]\<rparr>]"
  by code_simp

lemma spec_warnings_example:
  "spec_warnings [alice_item, nameless_item, PyInt 3] =
     [SkippingNonStringName nameless_item, SkippingMalformed (PyInt 3)]"
  by code_simp

theorem load_known_faces_result_witness:
  "load_known_faces np_array_float32 Missing = ([], [CouldNotLoad FileNotFoundError]) \<and>
   load_known_faces np_array_float32 (Pickled (PyStr ''abc'')) = ([], [NotAList]) \<and>
   load_known_faces np_array_float32 (Pickled (PyList [alice_item, nameless_item, PyInt 3])) =
     ([\<lparr>name = ''Alice'', embedding = [1 / 2, 3 / 4]\<rparr>],
      [SkippingNonStringName nameless_item, SkippingMalformed (PyInt 3), LoadedKnownFaces 1]) \<and>
   snd (load_known_faces np_array_float32 (Corrupt ValueError)) = [UnexpectedError ValueError]"
proof -
  have missing: "read_pickle Missing = Inl FileNotFoundError"
    by (simp add: read_pickle_def)
  have a: "load_known_faces np_array_float32 Missing = ([], [CouldNotLoad FileNotFoundError])"
    using load_known_faces_result [where np = np_array_float32 and f = Missing
        and e = FileNotFoundError and out = "[]" and items = "[]" and v = "PyInt 0"] missing
    by simp
  have b: "load_known_faces np_array_float32 (Pickled (PyStr ''abc'')) = ([], [NotAList])"
    using load_known_faces_result [where np = np_array_float32 and f = "Pickled (PyStr ''abc'')"
        and e = FileNotFoundError and out = "[]" and items = "[]" and v = "PyStr ''abc''"]
    by simp
  have c: "load_known_faces np_array_float32 (Pickled (PyList [alice_item, nameless_item, PyInt 3])) =
     ([\<lparr>name = ''Alice'', embedding = [1 / 2, 3 / 4]\<rparr>],
      [SkippingNonStringName nameless_item, SkippingMalformed (PyInt 3), LoadedKnownFaces 1])"
    using load_known_faces_result [where np = np_array_float32 and f = Missing
        and e = FileNotFoundError and out = "[]"
        and items = "[alice_item, nameless_item, PyInt 3]" and v = "PyInt 0"]
      all_convert_example
    by (simp add: spec_valid_entries_example spec_warnings_example)
  have corrupt: "load_attempt np_array_float32 (Corrupt ValueError) = (Inl ValueError, [])"
    by (simp add: load_attempt_def read_pickle_def)
  have d: "snd (load_known_faces np_array_float32 (Corrupt ValueError)) = [UnexpectedError ValueError]"
    using load_known_faces_result [where np = np_array_float32 and f = "Corrupt ValueError"
        and e = ValueError and out = "[]" and items = "[]" and v = "PyInt 0"] corrupt
    by simp
  from a b c d show ?thesis by blast
qed

text \<open>
  The claim as stated fails on a list whose first item is a valid entry and whose second
  item has an embedding that does not convert: the valid entry is not returned. And an
  item that is dropped is not dropped silently: a warning is printed for it.
\<close>

theorem load_known_faces_drops_valid_counterexample:
  "spec_entry np_array_float32 alice_item = Some \<lparr>name = ''Alice'', embedding = [1 / 2, 3 / 4]\<rparr> \<and>
   load_known_faces np_array_float32 (Pickled (PyList [alice_item, broken_item])) =
     ([], [UnexpectedError TypeError]) \<and>
   load_known_faces np_array_float32 (Pickled (PyList [nameless_item])) =
     ([], [SkippingNonStringName nameless_item, LoadedKnownFaces 0])"
  by code_simp

section \<open>Properties of the save\<close>

lemma load_items_pickled:
  assumes "\<forall>kf \<in> set data. np (PyArray (embedding kf)) = Inr (embedding kf)"
  shows "load_items np
     (map (\<lambda>kf. PyDict [(''name'', PyStr (name kf)), (''embedding'', PyArray (embedding kf))]) data)
     (valid, out) = (Inr (valid @ data), out)"
  using assms
proof (induction data arbitrary: valid)
  case Nil
  then show ?case by simp
next
  case (Cons kf data)
  from Cons.prems have here: "np (PyArray (embedding kf)) = Inr (embedding kf)"
    and rest: "\<forall>kf \<in> set data. np (PyArray (embedding kf)) = Inr (embedding kf)"
    by simp_all
  obtain n e where kf: "kf = \<lparr>name = n, embedding = e\<rparr>"
    by (cases kf) auto
  from Cons.IH [OF rest, of "valid @ [kf]"] here show ?case
    by (simp add: kf)
qed

lemma load_after_save:
  assumes "\<forall>kf \<in> set data. np (PyArray (embedding kf)) = Inr (embedding kf)"
  shows "fst (load_known_faces np (Pickled (pickle_of data))) = data"
  using load_items_pickled [OF assms, of "[]" "[]"]
  by (simp add: load_known_faces_def load_attempt_def read_pickle_def pickle_of_def)

lemma load_truncated: "fst (load_known_faces np Truncated) = []"
  by (simp add: load_known_faces_def load_attempt_def read_pickle_def)

lemma save_known_faces_cases:
  "save_known_faces data NoFault f = (Pickled (pickle_of data), SavedEntries (length data))"
  "save_known_faces data OpenFails f = (f, ErrorSaving)"
  "save_known_faces data DumpFails f = (Truncated, ErrorSaving)"
  by (simp_all add: save_known_faces_def open_wb_def pickle_dump_def)

text \<open>
  C5, amended. \<open>save_known_faces\<close> overwrites the file in place. When no fault occurs the
  file holds the complete new store, and a load gives the store back. When \<open>open\<close> fails
  the previous file is kept. When \<open>pickle.dump\<close> fails after the file was opened for
  writing, the file is left empty or cut off: it holds neither the new store nor the
  previous content, and a load gives the empty list. On both failures the error is
  caught and printed; nothing is raised, and the store in memory is an argument that
  is not changed.
\<close>

theorem save_known_faces_outcomes:
  "save_known_faces data NoFault f = (Pickled (pickle_of data), SavedEntries (length data)) \<and>
   save_known_faces data OpenFails f = (f, ErrorSaving) \<and>
   save_known_faces data DumpFails f = (Truncated, ErrorSaving) \<and>
   ((\<forall>kf \<in> set data. np (PyArray (embedding kf)) = Inr (embedding kf)) \<longrightarrow>
      fst (load_known_faces np (fst (save_known_faces data NoFault f))) = data) \<and>
   fst (load_known_faces np (fst (save_known_faces data DumpFails f))) = []"
  by (simp add: save_known_faces_cases load_after_save load_truncated)

lemma np_array_float32_array: "np_array_float32 (PyArray xs) = Inr xs"
  by (simp add: np_array_float32_def)

theorem save_known_faces_outcomes_witness:
  "fst (load_known_faces np_array_float32 (fst (save_known_faces example_db NoFault Missing)))
     = example_db \<and>
   save_known_faces example_db OpenFails (Pickled (pickle_of [])) = (Pickled (pickle_of []), ErrorSaving)"
proof -
  have conv: "\<forall>kf \<in> set example_db. np_array_float32 (PyArray (embedding kf)) = Inr (embedding kf)"
    by (simp add: np_array_float32_array)
  from conv save_known_faces_outcomes [where np = np_array_float32 and data = example_db and f = Missing]
    save_known_faces_outcomes [where np = np_array_float32 and data = example_db
      and f = "Pickled (pickle_of [])"]
  show ?thesis by blast
qed

text \<open>
  The claim as stated fails when \<open>pickle.dump\<close> raises: the file that held the store of
  one entry holds, after the failed save of three entries, neither of the two stores.
\<close>

theorem save_not_atomic_counterexample:
  "fst (load_known_faces np_array_float32 (Pickled (pickle_of [hd example_db]))) = [hd example_db] \<and>
   fst (save_known_faces example_db DumpFails (Pickled (pickle_of [hd example_db]))) = Truncated \<and>
   Truncated \<noteq> Pickled (pickle_of example_db) \<and>
   Truncated \<noteq> Pickled (pickle_of [hd example_db]) \<and>
   fst (load_known_faces np_array_float32
          (fst (save_known_faces example_db DumpFails (Pickled (pickle_of [hd example_db]))))) = []"
  by code_simp

section \<open>Properties of the live enrollment\<close>

lemma name_prompt_cancelled:
  "cancels (c_name_input c) \<Longrightarrow> name_prompt s emb c = (Continue, s)"
  by (auto simp: name_prompt_def cancels_def Let_def split: sum.splits interrupt.splits)

lemma name_prompt_end_of_input:
  "c_name_input c = Inl EndOfInput \<Longrightarrow> name_prompt s emb c = (Break, s)"
  by (simp add: name_prompt_def)

lemma capture_logic_no_enrollment:
  assumes "cancels (c_name_input c) \<or> c_name_input c = Inl EndOfInput"
  shows "known_faces_db (snd (capture_logic s fr c)) = known_faces_db s \<and>
     enrolled_names (snd (capture_logic s fr c)) = enrolled_names s \<and>
     db_file (snd (capture_logic s fr c)) = db_file s \<and>
     enroll_speak_calls (snd (capture_logic s fr c)) = enroll_speak_calls s"
  using assms
  by (auto simp: capture_logic_def Let_def name_prompt_cancelled name_prompt_end_of_input
      split: option.splits)

lemma capture_logic_continues:
  assumes "cancels (c_name_input c)"
  shows "fst (capture_logic s fr c) = Continue"
  using assms
  by (auto simp: capture_logic_def Let_def name_prompt_cancelled split: option.splits)

text \<open>
  C9, amended. At the name prompt, the token \<open>cancel\<close>, an empty input and a keyboard
  interrupt make the iteration a no-op continuation: the loop goes on with the state
  it had. The end of the input stream leaves the state as it was too, but ends the
  loop with \<open>break\<close>. In a whole iteration of the loop with such an input at the name
  prompt, the database, the set of enrolled names, the file and the spoken
  confirmations stay as they were, and with one of the first three inputs and the
  capture key the loop goes on.
\<close>

theorem name_prompt_cancellation:
  "(cancels (c_name_input c) \<longrightarrow> name_prompt s emb c = (Continue, s)) \<and>
   (c_name_input c = Inl EndOfInput \<longrightarrow> name_prompt s emb c = (Break, s)) \<and>
   (cancels (c_name_input c) \<or> c_name_input c = Inl EndOfInput \<longrightarrow>
      known_faces_db (snd (enroll_step s c)) = known_faces_db s \<and>
      enrolled_names (snd (enroll_step s c)) = enrolled_names s \<and>
      db_file (snd (enroll_step s c)) = db_file s \<and>
      enroll_speak_calls (snd (enroll_step s c)) = enroll_speak_calls s) \<and>
   (cancels (c_name_input c) \<and> c_key c = CAPTURE_KEY \<longrightarrow> fst (enroll_step s c) = Continue)"
proof (intro conjI impI)
  assume "cancels (c_name_input c)"
  then show "name_prompt s emb c = (Continue, s)" by (rule name_prompt_cancelled)
next
  assume "c_name_input c = Inl EndOfInput"
  then show "name_prompt s emb c = (Break, s)" by (rule name_prompt_end_of_input)
next
  assume a: "cancels (c_name_input c) \<or> c_name_input c = Inl EndOfInput"
  show "known_faces_db (snd (enroll_step s c)) = known_faces_db s"
    using capture_logic_no_enrollment [OF a]
    by (simp add: enroll_step_def Let_def split: option.splits)
  show "enrolled_names (snd (enroll_step s c)) = enrolled_names s"
    using capture_logic_no_enrollment [OF a]
    by (simp add: enroll_step_def Let_def split: option.splits)
  show "db_file (snd (enroll_step s c)) = db_file s"
    using capture_logic_no_enrollment [OF a]
    by (simp add: enroll_step_def Let_def split: option.splits)
  show "enroll_speak_calls (snd (enroll_step s c)) = enroll_speak_calls s"
    using capture_logic_no_enrollment [OF a]
    by (simp add: enroll_step_def Let_def split: option.splits)
next
  assume "cancels (c_name_input c) \<and> c_key c = CAPTURE_KEY"
  then show "fst (enroll_step s c) = Continue"
    by (simp add: enroll_step_def Let_def capture_logic_continues split: option.splits)
qed

lemma cancels_examples:
  "cancels (Inr '' CANCEL '')" "cancels (Inr ''  '')" "cancels (Inl KeyboardInterrupt)"
  by code_simp+

lemma enroll_step_example_enrolls:
  "map name (known_faces_db (snd (enroll_step (enroll_initial np_array_float32 Missing)
       (example_capture (Inr '' Bob ''))))) = [''Bob'']"
  by code_simp

theorem name_prompt_cancellation_witness:
  "fst (enroll_step (enroll_initial np_array_float32 Missing) (example_capture (Inr '' CANCEL '')))
     = Continue \<and>
   known_faces_db (snd (enroll_step (enroll_initial np_array_float32 Missing)
     (example_capture (Inr '' CANCEL '')))) = [] \<and>
   db_file (snd (enroll_step (enroll_initial np_array_float32 Missing)
     (example_capture (Inl KeyboardInterrupt)))) = Missing \<and>
   known_faces_db (snd (enroll_step (enroll_initial np_array_float32 Missing)
     (example_capture (Inl EndOfInput)))) = [] \<and>
   name_prompt (enroll_initial np_array_float32 Missing) [1, 0] (example_capture (Inr ''  ''))
     = (Continue, enroll_initial np_array_float32 Missing) \<and>
   name_prompt (enroll_initial np_array_float32 Missing) [1, 0] (example_capture (Inl EndOfInput))
     = (Break, enroll_initial np_array_float32 Missing)"
proof -
  have key: "c_key (example_capture p) = CAPTURE_KEY" and inp: "c_name_input (example_capture p) = p"
    for p by (simp_all add: example_capture_def CAPTURE_KEY_def)
  have init: "known_faces_db (enroll_initial np_array_float32 Missing) = []"
    "db_file (enroll_initial np_array_float32 Missing) = Missing"
    by code_simp+
  from name_prompt_cancellation [where c = "example_capture (Inr '' CANCEL '')"
      and s = "enroll_initial np_array_float32 Missing" and emb = "[]"]
    name_prompt_cancellation [where c = "example_capture (Inl KeyboardInterrupt)"
      and s = "enroll_initial np_array_float32 Missing" and emb = "[]"]
    name_prompt_cancellation [where c = "example_capture (Inl EndOfInput)"
      and s = "enroll_initial np_array_float32 Missing" and emb = "[]"]
    name_prompt_cancellation [where c = "example_capture (Inr ''  '')"
      and s = "enroll_initial np_array_float32 Missing" and emb = "[1, 0]"]
    name_prompt_cancellation [where c = "example_capture (Inl EndOfInput)"
      and s = "enroll_initial np_array_float32 Missing" and emb = "[1, 0]"]
    cancels_examples key inp init
  show ?thesis by simp
qed

text \<open>
  The claim as stated fails for the end of the input stream: the capture below gets to
  the name prompt (with the name \<open>Bob\<close> typed it enrolls Bob), and with the input
  stream closed the iteration ends the loop.
\<close>

theorem name_prompt_end_of_input_counterexample:
  "map name (known_faces_db (snd (enroll_step (enroll_initial np_array_float32 Missing)
       (example_capture (Inr '' Bob ''))))) = [''Bob''] \<and>
   fst (enroll_step (enroll_initial np_array_float32 Missing) (example_capture (Inl EndOfInput)))
     = Break"
  by code_simp

section \<open>One record per name\<close>

lemma names_without:
  "set (map name (filter (\<lambda>kf. name kf \<noteq> nm) db)) = set (map name db) - {nm}"
  by auto

lemma enroll_store_append:
  assumes "distinct (map name (known_faces_db s))"
    and "enrolled_names s = set (map name (known_faces_db s))"
    and "nm \<notin> enrolled_names s"
  shows "distinct (map name (known_faces_db (enroll_store s (known_faces_db s) nm emb fault))) \<and>
     enrolled_names (enroll_store s (known_faces_db s) nm emb fault) =
       set (map name (known_faces_db (enroll_store s (known_faces_db s) nm emb fault)))"
  using assms by (simp add: enroll_store_def Let_def)

lemma enroll_store_overwrite:
  assumes "distinct (map name (known_faces_db s))"
    and "enrolled_names s = set (map name (known_faces_db s))"
    and "nm \<in> enrolled_names s"
  shows "distinct (map name (known_faces_db
        (enroll_store s (filter (\<lambda>kf. name kf \<noteq> nm) (known_faces_db s)) nm emb fault))) \<and>
     enrolled_names (enroll_store s (filter (\<lambda>kf. name kf \<noteq> nm) (known_faces_db s)) nm emb fault) =
       set (map name (known_faces_db
        (enroll_store s (filter (\<lambda>kf. name kf \<noteq> nm) (known_faces_db s)) nm emb fault)))"
proof -
  have d: "distinct (map name (filter (\<lambda>kf. name kf \<noteq> nm) (known_faces_db s)))"
    using assms(1) by (rule distinct_map_filter)
  have n: "nm \<notin> set (map name (filter (\<lambda>kf. name kf \<noteq> nm) (known_faces_db s)))"
    by auto
  have e: "insert nm (enrolled_names s) =
      insert nm (set (map name (filter (\<lambda>kf. name kf \<noteq> nm) (known_faces_db s))))"
    unfolding names_without using assms(2) by auto
  from d n e show ?thesis
    by (simp add: enroll_store_def Let_def)
qed

lemma name_prompt_keeps_names:
  assumes "distinct (map name (known_faces_db s))"
    and "enrolled_names s = set (map name (known_faces_db s))"
  shows "distinct (map name (known_faces_db (snd (name_prompt s emb c)))) \<and>
     enrolled_names (snd (name_prompt s emb c)) = set (map name (known_faces_db (snd (name_prompt s emb c))))"
proof (cases "c_name_input c")
  case (Inl i)
  with assms show ?thesis
    by (cases i) (simp_all add: name_prompt_def)
next
  case (Inr typed)
  let ?nm = "strip typed"
  show ?thesis
  proof (cases "lower ?nm = ''cancel'' \<or> ?nm = []")
    case True
    with Inr assms show ?thesis by (auto simp: name_prompt_def Let_def)
  next
    case False
    note go = this
    show ?thesis
    proof (cases "?nm \<in> enrolled_names s")
      case False
      from enroll_store_append [OF assms False] go Inr False show ?thesis
        by (simp add: name_prompt_def Let_def)
    next
      case True
      note known = this
      show ?thesis
      proof (cases "c_overwrite_input c")
        case (Inl i)
        with assms go Inr known show ?thesis
          by (cases i) (simp_all add: name_prompt_def Let_def)
      next
        case (Inr answer)
        from enroll_store_overwrite [OF assms known] assms go \<open>c_name_input c = Inr typed\<close> known Inr
        show ?thesis
          by (simp add: name_prompt_def Let_def)
      qed
    qed
  qed
qed

lemma capture_logic_keeps_names:
  assumes "distinct (map name (known_faces_db s))"
    and "enrolled_names s = set (map name (known_faces_db s))"
  shows "distinct (map name (known_faces_db (snd (capture_logic s fr c)))) \<and>
     enrolled_names (snd (capture_logic s fr c)) = set (map name (known_faces_db (snd (capture_logic s fr c))))"
proof -
  let ?s1 = "s\<lparr>last_capture_attempt_time := c_press_time c\<rparr>"
  have s1: "distinct (map name (known_faces_db ?s1))"
    "enrolled_names ?s1 = set (map name (known_faces_db ?s1))"
    using assms by simp_all
  show ?thesis
    using assms name_prompt_keeps_names [OF s1]
    by (auto simp: capture_logic_def Let_def split: option.splits)
qed

lemma enroll_step_keeps_names:
  assumes "distinct (map name (known_faces_db s))"
    and "enrolled_names s = set (map name (known_faces_db s))"
  shows "distinct (map name (known_faces_db (snd (enroll_step s c)))) \<and>
     enrolled_names (snd (enroll_step s c)) = set (map name (known_faces_db (snd (enroll_step s c))))"
proof (cases "c_frame c")
  case None
  with assms show ?thesis by (simp add: enroll_step_def)
next
  case (Some live_frame)
  let ?s1 = "if c_time c - last_preview_detection_time s > PREVIEW_DETECTION_INTERVAL
             then s\<lparr>last_preview_detection_time := c_time c,
                    target_face_obj_for_preview :=
                      (if c_preview_faces c \<noteq> []
                       then get_center_most_face (c_preview_faces c) (cols live_frame) (rows live_frame)
                       else None)\<rparr>
             else s"
  have s1: "distinct (map name (known_faces_db ?s1))"
    "enrolled_names ?s1 = set (map name (known_faces_db ?s1))"
    using assms by simp_all
  from capture_logic_keeps_names [OF s1] s1 Some show ?thesis
    by (simp add: enroll_step_def Let_def)
qed

lemma enroll_from_image_file:
  assumes d: "distinct (map name (fst (load_known_faces np f)))"
    and r: "enroll_from_image np env person f = (Inr True, f', said)"
    and nf: "ie_save_fault env = NoFault"
  shows "\<exists>db'. f' = Pickled (pickle_of db') \<and> distinct (map name db') \<and>
     strip person \<in> set (map name db')"
proof -
  let ?db = "fst (load_known_faces np f)"
  let ?nm = "strip person"
  have d': "distinct (map name (filter (\<lambda>kf. name kf \<noteq> ?nm) ?db))"
    using d by (rule distinct_map_filter)
  from r nf have "f' = Pickled (pickle_of (?db @ [\<lparr>name = ?nm, embedding = the (normed_embedding (the (select_face (ie_detected_faces env))))\<rparr>])) \<and> ?nm \<notin> set (map name ?db)
    \<or> f' = Pickled (pickle_of (filter (\<lambda>kf. name kf \<noteq> ?nm) ?db @ [\<lparr>name = ?nm, embedding = the (normed_embedding (the (select_face (ie_detected_faces env))))\<rparr>]))"
    by (auto simp: enroll_from_image_def Let_def save_known_faces_cases
        split: if_splits option.splits sum.splits)
  then show ?thesis
  proof
    assume a: "f' = Pickled (pickle_of (?db @ [\<lparr>name = ?nm, embedding = the (normed_embedding (the (select_face (ie_detected_faces env))))\<rparr>])) \<and> ?nm \<notin> set (map name ?db)"
    show ?thesis
      by (rule exI [of _ "?db @ [\<lparr>name = ?nm, embedding = the (normed_embedding (the (select_face (ie_detected_faces env))))\<rparr>]"])
         (use a d in simp)
  next
    assume a: "f' = Pickled (pickle_of (filter (\<lambda>kf. name kf \<noteq> ?nm) ?db @ [\<lparr>name = ?nm, embedding = the (normed_embedding (the (select_face (ie_detected_faces env))))\<rparr>]))"
    show ?thesis
      by (rule exI [of _ "filter (\<lambda>kf. name kf \<noteq> ?nm) ?db @ [\<lparr>name = ?nm, embedding = the (normed_embedding (the (select_face (ie_detected_faces env))))\<rparr>]"])
         (use a d' in auto)
  qed
qed

lemma load_names_all_convert:
  "all_convert np items \<Longrightarrow>
     map name (fst (load_known_faces np (Pickled (PyList items)))) =
       map name (spec_valid_entries np items)"
  using load_items_all_convert [of np items "[]" "[]"]
  by (simp add: load_known_faces_def load_attempt_def read_pickle_def)

text \<open>
  C6, amended. Enrollment keeps the invariant of at most one record per name: if the
  store of the live enrollment has no two entries of one name and \<open>enrolled_names\<close> is
  the set of its names, the same holds after an iteration of the loop, and the loop
  starts with \<open>enrolled_names\<close> as the set of the names of the loaded store; if the
  loaded store has no two entries of one name, the store that a successful enrollment
  from an image writes has none either and holds the trimmed name. A load does not
  establish the invariant: it returns the names of the valid entries of the file as
  they are in the file, repeated names included.
\<close>

theorem enrollment_keeps_one_record_per_name:
  "(distinct (map name (known_faces_db s)) \<and>
    enrolled_names s = set (map name (known_faces_db s)) \<longrightarrow>
      distinct (map name (known_faces_db (snd (enroll_step s c)))) \<and>
      enrolled_names (snd (enroll_step s c)) =
        set (map name (known_faces_db (snd (enroll_step s c))))) \<and>
   known_faces_db (enroll_initial np f) = fst (load_known_faces np f) \<and>
   enrolled_names (enroll_initial np f) = set (map name (known_faces_db (enroll_initial np f))) \<and>
   (distinct (map name (fst (load_known_faces np f))) \<and>
    enroll_from_image np env person f = (Inr True, f', said) \<and>
    ie_save_fault env = NoFault \<longrightarrow>
      (\<exists>db'. f' = Pickled (pickle_of db') \<and> distinct (map name db') \<and>
         strip person \<in> set (map name db'))) \<and>
   (all_convert np items \<longrightarrow>
      map name (fst (load_known_faces np (Pickled (PyList items)))) =
        map name (spec_valid_entries np items))"
proof (intro conjI impI)
  assume a: "distinct (map name (known_faces_db s)) \<and>
    enrolled_names s = set (map name (known_faces_db s))"
  then have d: "distinct (map name (known_faces_db s))"
    and n: "enrolled_names s = set (map name (known_faces_db s))" by simp_all
  note keep = enroll_step_keeps_names [OF d n, of c]
  from keep show "distinct (map name (known_faces_db (snd (enroll_step s c))))" by simp
  from keep show "enrolled_names (snd (enroll_step s c)) =
        set (map name (known_faces_db (snd (enroll_step s c))))" by simp
next
  show "known_faces_db (enroll_initial np f) = fst (load_known_faces np f)"
    by (simp add: enroll_initial_def Let_def)
  show "enrolled_names (enroll_initial np f) = set (map name (known_faces_db (enroll_initial np f)))"
    by (simp add: enroll_initial_def Let_def)
next
  assume "distinct (map name (fst (load_known_faces np f))) \<and>
    enroll_from_image np env person f = (Inr True, f', said) \<and>
    ie_save_fault env = NoFault"
  then show "\<exists>db'. f' = Pickled (pickle_of db') \<and> distinct (map name db') \<and>
         strip person \<in> set (map name db')"
    using enroll_from_image_file by blast
next
  assume "all_convert np items"
  then show "map name (fst (load_known_faces np (Pickled (PyList items)))) =
        map name (spec_valid_entries np items)"
    by (rule load_names_all_convert)
qed

lemma enroll_initial_example_names:
  "map name (known_faces_db (enroll_initial np_array_float32 (Pickled (pickle_of example_db)))) =
     [''Alice'', ''Bob'', ''Carol'']"
  by code_simp

lemma enroll_step_example_overwrites:
  "map name (known_faces_db (snd (enroll_step
       (enroll_initial np_array_float32 (Pickled (pickle_of example_db)))
       (example_capture (Inr '' Bob ''))))) = [''Alice'', ''Carol'', ''Bob'']"
  by code_simp

lemma enroll_from_image_example:
  "enroll_from_image np_array_float32 example_image_env ''Bob '' (Pickled (pickle_of example_db)) =
     (Inr True,
      Pickled (pickle_of [\<lparr>name = ''Alice'', embedding = [1 / 2, 3 / 4]\<rparr>,
                          \<lparr>name = ''Carol'', embedding = [3 / 4, - 1 / 2]\<rparr>,
                          \<lparr>name = ''Bob'', embedding = [1, 0]\<rparr>]),
      [''Bob has been enrolled from image.''])"
  by code_simp

theorem enrollment_keeps_one_record_per_name_witness:
  "distinct (map name (known_faces_db (snd (enroll_step
       (enroll_initial np_array_float32 (Pickled (pickle_of example_db)))
       (example_capture (Inr '' Bob '')))))) \<and>
   (\<exists>db'. Pickled (pickle_of [\<lparr>name = ''Alice'', embedding = [1 / 2, 3 / 4]\<rparr>,
                              \<lparr>name = ''Carol'', embedding = [3 / 4, - 1 / 2]\<rparr>,
                              \<lparr>name = ''Bob'', embedding = [1, 0]\<rparr>]) = Pickled (pickle_of db') \<and>
      distinct (map name db') \<and> strip ''Bob '' \<in> set (map name db')) \<and>
   map name (fst (load_known_faces np_array_float32
       (Pickled (PyList [alice_item, nameless_item, PyInt 3])))) = [''Alice'']"
proof -
  let ?f = "Pickled (pickle_of example_db)"
  let ?s = "enroll_initial np_array_float32 ?f"
  let ?f' = "Pickled (pickle_of [\<lparr>name = ''Alice'', embedding = [1 / 2, 3 / 4]\<rparr>,
                          \<lparr>name = ''Carol'', embedding = [3 / 4, - 1 / 2]\<rparr>,
                          \<lparr>name = ''Bob'', embedding = [1, 0]\<rparr>])"
  note inst = enrollment_keeps_one_record_per_name [where s = "?s" and np = np_array_float32
      and f = "?f" and c = "example_capture (Inr '' Bob '')" and env = example_image_env
      and person = "''Bob ''" and f' = "?f'" and said = "[''Bob has been enrolled from image.'']"
      and items = "[]"]
  have d: "distinct (map name (known_faces_db ?s))"
    by (simp add: enroll_initial_example_names)
  have nf: "ie_save_fault example_image_env = NoFault"
    by (simp add: example_image_env_def)
  from inst d have loaded: "distinct (map name (fst (load_known_faces np_array_float32 ?f)))"
    by simp
  from inst d have a: "distinct (map name (known_faces_db (snd (enroll_step ?s
       (example_capture (Inr '' Bob ''))))))"
    by blast
  from inst loaded nf enroll_from_image_example
  have b: "\<exists>db'. ?f' = Pickled (pickle_of db') \<and> distinct (map name db') \<and>
      strip ''Bob '' \<in> set (map name db')"
    by blast
  from enrollment_keeps_one_record_per_name [where s = "?s" and np = np_array_float32
      and f = "?f" and c = "example_capture (Inr '' Bob '')" and env = example_image_env
      and person = "''Bob ''" and f' = "?f'" and said = "[]"
      and items = "[alice_item, nameless_item, PyInt 3]"] all_convert_example
  have c: "map name (fst (load_known_faces np_array_float32
       (Pickled (PyList [alice_item, nameless_item, PyInt 3])))) = [''Alice'']"
    by (simp add: spec_valid_entries_example)
  from a b c show ?thesis by blast
qed

text \<open>
  The claim as stated fails for a load: a file that holds two entries named Alice loads
  as a list with two entries named Alice, and an enrollment of Bob from an image on
  that file writes a store that still has both.
\<close>

theorem load_keeps_duplicate_names_counterexample:
  "map name (fst (load_known_faces np_array_float32 (Pickled (PyList [alice_item, alice_item]))))
     = [''Alice'', ''Alice''] \<and>
   \<not> distinct (map name (fst (load_known_faces np_array_float32
         (Pickled (PyList [alice_item, alice_item]))))) \<and>
   map name (fst (load_known_faces np_array_float32 (fst (snd
       (enroll_from_image np_array_float32 example_image_env ''Bob ''
          (Pickled (PyList [alice_item, alice_item])))))))
     = [''Alice'', ''Alice'', ''Bob'']"
  by code_simp

end
